theory Spec2Isabelle
  imports Complex_Main "HOL-Library.AList"
begin

section \<open>JavaScript numbers and loosely typed field values\<close>

text \<open>
  A JavaScript number is an IEEE double: a finite value, one of the two infinities, or NaN.
  The finite values are modelled by the real numbers: rounding of a finite result to the
  nearest double is not modelled, so every statement below about sums and differences is a
  statement about exact arithmetic. What is modelled of the double format is the part the
  code tests for: non-finite values, and the overflow of a parsed decimal to Infinity.
\<close>

datatype jsnum = Fin real | PosInf | NegInf | NaN

fun isFinite :: "jsnum \<Rightarrow> bool" where
  "isFinite (Fin r) = True"
| "isFinite PosInf = False"
| "isFinite NegInf = False"
| "isFinite NaN = False"

text \<open>The real value of a finite number (only ever applied to results of \<open>toNumber\<close>,
  which are finite).\<close>

fun num :: "jsnum \<Rightarrow> real" where
  "num (Fin r) = r"
| "num PosInf = 0"
| "num NegInf = 0"
| "num NaN = 0"

text \<open>
  A field value on which \<open>String(value)\<close> returns. \<open>JOther s\<close> stands for any such value that
  is neither a number, a string, null nor undefined (a boolean, an array, an object with
  a usable \<open>toString\<close>), given by the text \<open>s\<close> that \<open>String(value)\<close> produces for it. The
  aggregators below are modelled on rows whose numeric fields are of this kind; the values
  on which \<open>String\<close> throws are those of \<open>jsarg\<close> further down.
\<close>

datatype jsvalue = JNumber jsnum | JString string | JNull | JUndefined | JOther string

subsection \<open>Strings\<close>

definition isDigit :: "char \<Rightarrow> bool" where
  "isDigit c = (c \<in> set ''0123456789'')"

definition digitVal :: "char \<Rightarrow> int" where
  "digitVal c =
     (case map_of (zip ''0123456789'' [0, 1, 2, 3, 4, 5, 6, 7, 8, 9]) c of
        Some d \<Rightarrow> d
      | None \<Rightarrow> 0)"

definition digitsVal :: "string \<Rightarrow> int" where
  "digitsVal s = foldl (\<lambda>a c. 10 * a + digitVal c) 0 s"

text \<open>\<open>toLowerCase\<close> on the ASCII letters; other characters are left as they are.\<close>

definition toLowerChar :: "char \<Rightarrow> char" where
  "toLowerChar c =
     (case map_of (zip ''ABCDEFGHIJKLMNOPQRSTUVWXYZ'' ''abcdefghijklmnopqrstuvwxyz'') c of
        Some l \<Rightarrow> l
      | None \<Rightarrow> c)"

definition toLowerCase :: "string \<Rightarrow> string" where
  "toLowerCase s = map toLowerChar s"

text \<open>\<open>trim\<close> removes the ASCII white space (tab, line feed, vertical tab, form feed,
  carriage return, space) at both ends. The Unicode white space that \<open>String.prototype.trim\<close>
  removes as well (U+00A0 and others) is not decoded in these byte strings.\<close>

definition isSpace :: "char \<Rightarrow> bool" where
  "isSpace c = (c \<in> set [CHR 0x09, CHR 0x0A, CHR 0x0B, CHR 0x0C, CHR 0x0D, CHR '' ''])"

definition trim :: "string \<Rightarrow> string" where
  "trim s = rev (dropWhile isSpace (rev (dropWhile isSpace s)))"

fun startsWith :: "string \<Rightarrow> string \<Rightarrow> bool" where
  "startsWith s [] = True"
| "startsWith [] (k # ks) = False"
| "startsWith (c # cs) (k # ks) = (c = k \<and> startsWith cs ks)"

text \<open>\<open>s.includes(kw)\<close> (the name \<open>includes\<close> is reserved):
  \<open>kw\<close> occurs in \<open>s\<close> as a contiguous substring.\<close>

fun includesStr :: "string \<Rightarrow> string \<Rightarrow> bool" where
  "includesStr [] kw = (kw = [])"
| "includesStr (c # cs) kw = (startsWith (c # cs) kw \<or> includesStr cs kw)"

text \<open>\<open>key.split('||')\<close>, scanning from the left; the first argument is the current
  piece, reversed.\<close>

fun splitBars :: "string \<Rightarrow> string \<Rightarrow> string list" where
  "splitBars cur [] = [rev cur]"
| "splitBars cur [a] = [rev (a # cur)]"
| "splitBars cur (a # b # rest) =
     (if a = CHR ''|'' \<and> b = CHR ''|'' then rev cur # splitBars [] rest
      else splitBars (a # cur) (b # rest))"

subsection \<open>The defensive numeric parser\<close>

text \<open>
  \<open>String(value).replace(/[^0-9.-]/g, '')\<close> keeps the digits, the dot and the minus sign.
\<close>

definition keepChar :: "char \<Rightarrow> bool" where
  "keepChar c = (isDigit c \<or> c = CHR ''.'' \<or> c = CHR ''-'')"

text \<open>
  A decimal that is at least \<open>2^1024 - 2^970\<close> in magnitude rounds to an infinity.
\<close>

definition roundDouble :: "real \<Rightarrow> jsnum" where
  "roundDouble v =
     (if 2 ^ 1024 - 2 ^ 970 \<le> v then PosInf
      else if v \<le> - (2 ^ 1024 - 2 ^ 970) then NegInf
      else Fin v)"

text \<open>
  \<open>parseFloat\<close> on a string of digits, dots and minus signs (no white space, plus sign,
  exponent or \<open>Infinity\<close> survives the replacement): an optional minus sign, then the
  longest prefix of the form digits, digits-dot-digits or dot-digits; NaN when there is
  no such prefix.
\<close>

definition parseFloat :: "string \<Rightarrow> jsnum" where
  "parseFloat s =
     (let neg = (s \<noteq> [] \<and> hd s = CHR ''-'');
          r = (if neg then tl s else s);
          ip = takeWhile isDigit r;
          r2 = dropWhile isDigit r;
          fp = (if r2 \<noteq> [] \<and> hd r2 = CHR ''.'' then takeWhile isDigit (tl r2) else [])
      in if ip = [] \<and> fp = [] then NaN
         else roundDouble ((if neg then - 1 else 1) *
                (of_int (digitsVal ip) + of_int (digitsVal fp) / 10 ^ length fp)))"

text \<open>
  \<open>toNumber\<close>, as defined (identically) in the aggregation service and in the analysis
  service: a number is kept when finite, null and undefined give 0, and everything else
  goes through \<open>String\<close>, the replacement and \<open>parseFloat\<close>.
\<close>

fun toNumber :: "jsvalue \<Rightarrow> jsnum" where
  "toNumber (JNumber n) = (if isFinite n then n else Fin 0)"
| "toNumber JNull = Fin 0"
| "toNumber JUndefined = Fin 0"
| "toNumber (JString s) =
     (let parsed = parseFloat (filter keepChar s) in if isFinite parsed then parsed else Fin 0)"
| "toNumber (JOther s) =
     (let parsed = parseFloat (filter keepChar s) in if isFinite parsed then parsed else Fin 0)"

text \<open>
  \<open>toNumber\<close> called on any value. \<open>String(value)\<close> throws a TypeError when the value cannot
  be converted to a primitive. \<open>PlainObject keys\<close> is an object as \<open>JSON.parse\<close> builds it,
  given by its own property names: its properties hold JSON values, never functions, so
  an own property \<open>toString\<close> hides \<open>Object.prototype.toString\<close> with something that cannot
  be called, \<open>valueOf\<close> (own or inherited) yields no primitive either, and the conversion
  throws; without an own \<open>toString\<close> the text is \<open>[object Object]\<close>. \<open>Unconvertible\<close> is any
  other value on which \<open>String\<close> throws (an object without prototype, an array holding an
  unconvertible element).
\<close>

datatype error = TypeError

datatype jsarg = Field jsvalue | PlainObject "string list" | Unconvertible

fun toNumberCall :: "jsarg \<Rightarrow> error + jsnum" where
  "toNumberCall (Field v) = Inr (toNumber v)"
| "toNumberCall (PlainObject keys) =
     (if ''toString'' \<in> set keys then Inl TypeError
      else Inr (toNumber (JOther ''[object Object]'')))"
| "toNumberCall Unconvertible = Inl TypeError"

section \<open>Dates and sorting\<close>

text \<open>
  A \<open>Date\<close> object is either invalid or valid; of a valid date the model keeps what the
  code reads from it: \<open>getTime()\<close> in milliseconds, \<open>getFullYear()\<close> and \<open>getMonth()\<close>
  (0 to 11). How the host parses a date string and which time zone it uses is not
  modelled: a date string is given by the \<open>Date\<close> that \<open>new Date\<close> makes of it.
\<close>

datatype jsdate = InvalidDate | ValidDate int int nat
  \<comment> \<open>time, full year, month\<close>

fun valueOf :: "jsdate \<Rightarrow> jsnum" where
  "valueOf InvalidDate = NaN"
| "valueOf (ValidDate t y m) = Fin (of_int t)"

text \<open>
  A date field of a row: null, absent (undefined or the empty string), or a non-empty
  string. Only the last is truthy. \<open>new Date(null)\<close> is the epoch (only its time is ever
  read), \<open>new Date(undefined)\<close> and \<open>new Date('')\<close> are invalid.
\<close>

datatype datefield = DNull | DAbsent | DText jsdate

fun truthy :: "datefield \<Rightarrow> bool" where
  "truthy (DText d) = True"
| "truthy DNull = False"
| "truthy DAbsent = False"

fun newDate :: "datefield \<Rightarrow> jsdate" where
  "newDate (DText d) = d"
| "newDate DNull = ValidDate 0 1970 0"
| "newDate DAbsent = InvalidDate"

text \<open>\<open>new Date(x || 0)\<close>\<close>

definition newDateOr0 :: "datefield \<Rightarrow> jsdate" where
  "newDateOr0 f = (if truthy f then newDate f else ValidDate 0 1970 0)"

text \<open>Subtraction and \<open>!==\<close> on numbers.\<close>

fun jsSub :: "jsnum \<Rightarrow> jsnum \<Rightarrow> jsnum" where
  "jsSub (Fin a) (Fin b) = Fin (a - b)"
| "jsSub NaN y = NaN"
| "jsSub x NaN = NaN"
| "jsSub PosInf PosInf = NaN"
| "jsSub NegInf NegInf = NaN"
| "jsSub PosInf y = PosInf"
| "jsSub NegInf y = NegInf"
| "jsSub (Fin a) PosInf = NegInf"
| "jsSub (Fin a) NegInf = PosInf"

fun strictNe :: "jsnum \<Rightarrow> jsnum \<Rightarrow> bool" where
  "strictNe NaN y = True"
| "strictNe x NaN = True"
| "strictNe x y = (x \<noteq> y)"

fun isPositive :: "jsnum \<Rightarrow> bool" where
  "isPositive (Fin r) = (0 < r)"
| "isPositive PosInf = True"
| "isPositive NegInf = False"
| "isPositive NaN = False"

text \<open>
  \<open>Array.prototype.sort(comparefn)\<close> is stable, and an element moves behind another only
  when \<open>comparefn\<close> returns a positive number for the pair (NaN counts as zero). The
  model is the stable insertion sort. When \<open>comparefn\<close> is not a consistent comparator
  (here: only when some date is invalid) ECMAScript leaves the order to the
  implementation; the model then still gives the insertion sort's order.
\<close>

fun insertBy :: "('a \<Rightarrow> 'a \<Rightarrow> jsnum) \<Rightarrow> 'a \<Rightarrow> 'a list \<Rightarrow> 'a list" where
  "insertBy cmp x [] = [x]"
| "insertBy cmp x (y # ys) =
     (if isPositive (cmp x y) then y # insertBy cmp x ys else x # y # ys)"

definition jsSort :: "('a \<Rightarrow> 'a \<Rightarrow> jsnum) \<Rightarrow> 'a list \<Rightarrow> 'a list" where
  "jsSort cmp xs = foldr (insertBy cmp) xs []"

section \<open>Transaction rows\<close>

text \<open>
  A row is a flat mapping of named fields; each aggregator reads the fields of its own
  table. Text fields are strings, with the empty string for null or absent (the code reads
  them only through \<open>field || default\<close>); numeric fields are loosely typed values.
\<close>

record row =
  account_type :: string
  account_name :: string
  bank_name :: string
  txn_date :: datefield
  amount :: jsvalue
  transaction_type :: string
  employee_share :: jsvalue
  employer_share :: jsvalue
  pension_share :: jsvalue
  invest_type :: string
  scheme_name :: string
  units :: jsvalue
  nav :: jsvalue
  date :: datefield
  created_at :: datefield

text \<open>A row with every field absent, as a base for examples.\<close>

definition emptyRow :: row where
  "emptyRow = \<lparr> account_type = [], account_name = [], bank_name = [], txn_date = DAbsent,
     amount = JUndefined, transaction_type = [], employee_share = JUndefined,
     employer_share = JUndefined, pension_share = JUndefined, invest_type = [],
     scheme_name = [], units = JUndefined, nav = JUndefined, date = DAbsent,
     created_at = DAbsent \<rparr>"

text \<open>
  A \<open>Map\<close> from string keys to arrays, in insertion order, is an association list;
  \<open>pushTo\<close> is \<open>if (!m.has(key)) m.set(key, []); m.get(key).push(x)\<close>.
\<close>

definition getOrEmpty :: "(string \<times> 'a list) list \<Rightarrow> string \<Rightarrow> 'a list" where
  "getOrEmpty m key = (case map_of m key of None \<Rightarrow> [] | Some l \<Rightarrow> l)"

definition pushTo :: "(string \<times> 'a list) list \<Rightarrow> string \<Rightarrow> 'a \<Rightarrow> (string \<times> 'a list) list" where
  "pushTo m key x = AList.update key (getOrEmpty m key @ [x]) m"

section \<open>Bank holdings\<close>

record bank_result =
  savings :: real
  demat :: real
  bankTotal :: real

definition bankZero :: bank_result where
  "bankZero = \<lparr> savings = 0, demat = 0, bankTotal = 0 \<rparr>"

definition isBankType :: "row \<Rightarrow> bool" where
  "isBankType txn =
     (let type = toLowerCase (account_type txn) in type = ''savings'' \<or> type = ''demat'')"

text \<open>\<open>getFullYear() * 100 + (getMonth() + 1)\<close>, when the date is valid.\<close>

fun monthNumeric :: "jsdate \<Rightarrow> int option" where
  "monthNumeric InvalidDate = None"
| "monthNumeric (ValidDate t y m) = Some (y * 100 + (int m + 1))"

text \<open>One round of the first \<open>forEach\<close>; \<open>None\<close> is \<open>-Infinity\<close>.\<close>

definition latestStep :: "int option \<Rightarrow> row \<Rightarrow> int option" where
  "latestStep latest txn =
     (if \<not> truthy (txn_date txn) then latest
      else case monthNumeric (newDate (txn_date txn)) of
             None \<Rightarrow> latest
           | Some mn \<Rightarrow>
               (case latest of
                  None \<Rightarrow> Some mn
                | Some l \<Rightarrow> if mn > l then Some mn else latest))"

definition latestMonthNumeric :: "row list \<Rightarrow> int option" where
  "latestMonthNumeric filtered = foldl latestStep None filtered"

definition bankKey :: "row \<Rightarrow> string" where
  "bankKey txn = account_name txn @ ''||'' @ bank_name txn @ ''||'' @ account_type txn"

definition bankGroups :: "row list \<Rightarrow> (string \<times> row list) list" where
  "bankGroups filtered = foldl (\<lambda>groups txn. pushTo groups (bankKey txn) txn) [] filtered"

definition bankCompare :: "row \<Rightarrow> row \<Rightarrow> jsnum" where
  "bankCompare a b =
     jsSub (valueOf (newDateOr0 (txn_date b))) (valueOf (newDateOr0 (txn_date a)))"

text \<open>The time of a transaction's date as the comparator reads it.\<close>

definition txnTime :: "row \<Rightarrow> real" where
  "txnTime txn = num (valueOf (newDateOr0 (txn_date txn)))"

definition inMonth :: "int \<Rightarrow> row \<Rightarrow> bool" where
  "inMonth latest txn = (monthNumeric (newDate (txn_date txn)) = Some latest)"

text \<open>The transaction a group contributes: the first one of the latest month in
  descending date order.\<close>

definition bankMatch :: "int \<Rightarrow> row list \<Rightarrow> row option" where
  "bankMatch latest list =
     find (inMonth latest) (jsSort bankCompare (filter (\<lambda>txn. truthy (txn_date txn)) list))"

definition bankAdd :: "int \<Rightarrow> real \<times> real \<Rightarrow> row list \<Rightarrow> real \<times> real" where
  "bankAdd latest acc list =
     (case bankMatch latest list of
        None \<Rightarrow> acc
      | Some m \<Rightarrow>
          (let type = toLowerCase (account_type m);
               amt = num (toNumber (amount m))
           in if type = ''savings'' then (fst acc + amt, snd acc)
              else if type = ''demat'' then (fst acc, snd acc + amt)
              else acc))"

definition calculateBankHoldings :: "row list \<Rightarrow> bank_result" where
  "calculateBankHoldings transactions =
     (if transactions = [] then bankZero
      else let filtered = filter isBankType transactions in
        if filtered = [] then bankZero
        else case latestMonthNumeric filtered of
               None \<Rightarrow> bankZero
             | Some latest \<Rightarrow>
                 if latest < 0 then bankZero
                 else let acc = foldl (bankAdd latest) (0, 0) (map snd (bankGroups filtered))
                      in \<lparr> savings = fst acc, demat = snd acc,
                           bankTotal = fst acc + snd acc \<rparr>)"

text \<open>The transactions that contribute: the matches of the groups, in group order.\<close>

definition bankMatches :: "int \<Rightarrow> row list \<Rightarrow> row list" where
  "bankMatches latest filtered =
     List.map_filter (bankMatch latest) (map snd (bankGroups filtered))"

definition amountOfType :: "string \<Rightarrow> row list \<Rightarrow> real" where
  "amountOfType ty ms =
     (\<Sum>m\<leftarrow>filter (\<lambda>m. toLowerCase (account_type m) = ty) ms. num (toNumber (amount m)))"

text \<open>The claimed value: the sum of the amounts of all transactions of one type that fall
  in the latest month.\<close>

definition latestMonthSum :: "string \<Rightarrow> row list \<Rightarrow> real" where
  "latestMonthSum ty transactions =
     (case latestMonthNumeric (filter isBankType transactions) of
        None \<Rightarrow> 0
      | Some latest \<Rightarrow>
          amountOfType ty
            (filter (\<lambda>t. isBankType t \<and> truthy (txn_date t) \<and> inMonth latest t) transactions))"

section \<open>Provident fund holdings\<close>

record fund_result =
  invested :: real
  interest :: real
  total :: real

text \<open>
  The PPF rows are grouped in a plain object \<open>{}\<close>. A key that names a property inherited
  from \<open>Object.prototype\<close> reads as truthy before any row was stored under it, so no array
  is created and \<open>acc[key].push\<close> is not a function: the call throws a TypeError.
\<close>

definition objectPrototypeKeys :: "string list" where
  "objectPrototypeKeys =
     [''constructor'', ''__proto__'', ''hasOwnProperty'', ''isPrototypeOf'',
      ''propertyIsEnumerable'', ''toLocaleString'', ''toString'', ''valueOf'',
      ''__defineGetter__'', ''__defineSetter__'', ''__lookupGetter__'',
      ''__lookupSetter__'']"

definition ppfKey :: "row \<Rightarrow> string" where
  "ppfKey txn = (if account_name txn = [] then ''unknown'' else account_name txn)"

definition ppfPush :: "(string \<times> row list) list \<Rightarrow> row \<Rightarrow> error + (string \<times> row list) list" where
  "ppfPush acc txn =
     (let key = ppfKey txn in
      case map_of acc key of
        Some l \<Rightarrow> Inr (AList.update key (l @ [txn]) acc)
      | None \<Rightarrow>
          if key \<in> set objectPrototypeKeys then Inl TypeError
          else Inr (AList.update key [txn] acc))"

fun ppfGrouped :: "(string \<times> row list) list \<Rightarrow> row list \<Rightarrow> error + (string \<times> row list) list" where
  "ppfGrouped acc [] = Inr acc"
| "ppfGrouped acc (txn # txns) =
     (case ppfPush acc txn of Inl e \<Rightarrow> Inl e | Inr acc' \<Rightarrow> ppfGrouped acc' txns)"

text \<open>
  \<open>Object.values\<close> lists the array-index keys first, in ascending numeric order, then the
  other keys in insertion order.
\<close>

definition isArrayIndex :: "string \<Rightarrow> bool" where
  "isArrayIndex k =
     (k \<noteq> [] \<and> list_all isDigit k \<and> (k = ''0'' \<or> hd k \<noteq> CHR ''0'') \<and>
      digitsVal k < 4294967295)"

definition objectValues :: "(string \<times> 'a) list \<Rightarrow> 'a list" where
  "objectValues obj =
     map snd (sort_key (\<lambda>kv. digitsVal (fst kv)) (filter (\<lambda>kv. isArrayIndex (fst kv)) obj)
              @ filter (\<lambda>kv. \<not> isArrayIndex (fst kv)) obj)"

definition ppfCompare :: "row \<Rightarrow> row \<Rightarrow> jsnum" where
  "ppfCompare a b = jsSub (valueOf (newDate (txn_date a))) (valueOf (newDate (txn_date b)))"

text \<open>The withdrawal branch: interest first, then the deposits.\<close>

definition withdraw :: "real \<Rightarrow> real \<times> real \<Rightarrow> real \<times> real" where
  "withdraw amt st =
     (let remaining = amt;
          reduceInterest = min remaining (snd st);
          interest' = snd st - reduceInterest;
          remaining' = remaining - reduceInterest;
          reduceDeposit = min remaining' (fst st)
      in (fst st - reduceDeposit, interest'))"

text \<open>One transaction of an account; the state is the pair (invested, interest).\<close>

definition ppfStep :: "real \<times> real \<Rightarrow> row \<Rightarrow> real \<times> real" where
  "ppfStep st txn =
     (let amt = num (toNumber (amount txn));
          type = toLowerCase (transaction_type txn)
      in if type = ''deposit'' then (fst st + amt, snd st)
         else if type = ''interest'' then (fst st, snd st + amt)
         else if type = ''withdrawal'' then withdraw amt st
         else st)"

definition ppfAccount :: "row list \<Rightarrow> real \<times> real" where
  "ppfAccount accountTxns = foldl ppfStep (0, 0) (jsSort ppfCompare accountTxns)"

definition ppfTotals :: "real \<times> real \<Rightarrow> row list \<Rightarrow> real \<times> real" where
  "ppfTotals tot accountTxns =
     (let st = ppfAccount accountTxns in (fst tot + fst st, snd tot + snd st))"

definition calculatePPFHoldings :: "row list \<Rightarrow> error + fund_result" where
  "calculatePPFHoldings transactions =
     (case ppfGrouped [] transactions of
        Inl e \<Rightarrow> Inl e
      | Inr grouped \<Rightarrow>
          (let tot = foldl ppfTotals (0, 0) (objectValues grouped)
           in Inr \<lparr> invested = fst tot, interest = snd tot, total = fst tot + snd tot \<rparr>))"

section \<open>NPS holdings: the FIFO lot queue\<close>

text \<open>
  The prepared transaction and the lot, with the fields the code gives them (prefixed,
  since \<open>units\<close>, \<open>nav\<close> and \<open>date\<close> are row fields already). \<open>txUnits\<close> and \<open>txNav\<close> are results
  of \<open>toNumber\<close>, hence finite.
\<close>

record prepared =
  schemeName :: string
  accountName :: string
  txType :: string
  txUnits :: real
  txNav :: real
  effectiveDate :: "jsdate option"
  txIndex :: nat

record lot =
  lotUnits :: real
  lotCost :: real
  lotDate :: "jsdate option"
  lotOrder :: jsnum
  lotSequence :: nat

definition eps :: real where
  "eps = 1 / 10 ^ 8"

text \<open>\<open>txn.date || txn.txn_date || txn.created_at\<close>\<close>

definition pickDate :: "row \<Rightarrow> datefield" where
  "pickDate txn =
     (if truthy (date txn) then date txn
      else if truthy (txn_date txn) then txn_date txn
      else created_at txn)"

definition effectiveDateOf :: "row \<Rightarrow> jsdate option" where
  "effectiveDateOf txn = (let d = pickDate txn in if truthy d then Some (newDate d) else None)"

text \<open>The object the \<open>map\<close> callback returns for a row and its index, and the callback
  itself (\<open>None\<close> is its \<open>null\<close>, for a blank scheme name).\<close>

definition preparedOf :: "row \<Rightarrow> nat \<Rightarrow> prepared" where
  "preparedOf txn i =
     \<lparr> schemeName = trim (scheme_name txn),
       accountName = trim (account_name txn),
       txType = toLowerCase (transaction_type txn),
       txUnits = num (toNumber (units txn)),
       txNav = num (toNumber (nav txn)),
       effectiveDate = effectiveDateOf txn,
       txIndex = i \<rparr>"

definition prepare :: "row \<times> nat \<Rightarrow> prepared option" where
  "prepare ti =
     (if trim (scheme_name (fst ti)) = [] then None else Some (preparedOf (fst ti) (snd ti)))"

definition timeOf :: "jsdate option \<Rightarrow> jsnum" where
  "timeOf d = (case d of None \<Rightarrow> PosInf | Some dt \<Rightarrow> valueOf dt)"


definition npsCompare :: "prepared \<Rightarrow> prepared \<Rightarrow> jsnum" where
  "npsCompare a b =
     (let aTime = timeOf (effectiveDate a); bTime = timeOf (effectiveDate b)
      in if strictNe aTime bTime then jsSub aTime bTime
         else Fin (real (txIndex a) - real (txIndex b)))"

text \<open>\<open>map\<close>, \<open>filter\<close> and \<open>sort\<close>. The filter's \<open>Number.isFinite(tx.units)\<close> always
  holds, the units being a result of \<open>toNumber\<close>.\<close>

definition preparedTransactions :: "row list \<Rightarrow> prepared list" where
  "preparedTransactions transactions =
     jsSort npsCompare
       (filter (\<lambda>tx. \<bar>txUnits tx\<bar> > eps)
          (List.map_filter prepare (zip transactions [0 ..< length transactions])))"

definition FIFO_KEYWORDS :: "string list" where
  "FIFO_KEYWORDS = [''sell'', ''redeem'', ''withdraw'', ''switch out'', ''exit'']"

definition isSaleType :: "prepared \<Rightarrow> bool" where
  "isSaleType txn = (txUnits txn < 0 \<or> list_ex (\<lambda>kw. includesStr (txType txn) kw) FIFO_KEYWORDS)"

definition isBuy :: "prepared \<Rightarrow> bool" where
  "isBuy txn = (includesStr (txType txn) ''buy'' \<and> txUnits txn > 0)"

text \<open>
  The \<open>while\<close> loop of a sale: it ends because every round either removes the front lot
  or leaves nothing remaining.
\<close>

function consume :: "real \<Rightarrow> lot list \<Rightarrow> lot list" where
  "consume remaining [] = []"
| "consume remaining (l # lots) =
     (if remaining > eps then
        (let deduction = min remaining (lotUnits l);
             l' = l\<lparr> lotUnits := lotUnits l - deduction \<rparr>;
             remaining' = remaining - deduction
         in if lotUnits l' \<le> eps then consume remaining' lots
            else consume remaining' (l' # lots))
      else l # lots)"
  by pat_completeness auto
termination
proof (relation "measure (\<lambda>(r, ls). 2 * length ls + (if r > eps then 1 else 0))")
  show "wf (measure (\<lambda>(r, ls). 2 * length ls + (if r > eps then 1 else 0)))"
    by simp
next
  fix remaining :: real and l :: lot and lots x xa xb
  assume "eps < remaining" "x = min remaining (lotUnits l)"
    "xa = l\<lparr>lotUnits := lotUnits l - x\<rparr>" "xb = remaining - x" "lotUnits xa \<le> eps"
  then show "((xb, lots), remaining, l # lots)
     \<in> measure (\<lambda>(r, ls). 2 * length ls + (if r > eps then 1 else 0))"
    by simp
next
  fix remaining :: real and l :: lot and lots x xa xb
  assume a: "eps < remaining" "x = min remaining (lotUnits l)"
    "xa = l\<lparr>lotUnits := lotUnits l - x\<rparr>" "xb = remaining - x" "\<not> lotUnits xa \<le> eps"
  have "0 < eps" by (simp add: eps_def)
  with a have "x = remaining" by (auto simp: min_def split: if_splits)
  with a \<open>0 < eps\<close> show "((xb, xa # lots), remaining, l # lots)
     \<in> measure (\<lambda>(r, ls). 2 * length ls + (if r > eps then 1 else 0))"
    by simp
qed

definition newLot :: "prepared \<Rightarrow> lot" where
  "newLot txn =
     \<lparr> lotUnits = txUnits txn, lotCost = txUnits txn * txNav txn,
       lotDate = effectiveDate txn, lotOrder = timeOf (effectiveDate txn),
       lotSequence = txIndex txn \<rparr>"

text \<open>What one prepared transaction does to the lot queue of its key.\<close>

definition applyTxn :: "lot list \<Rightarrow> prepared \<Rightarrow> lot list" where
  "applyTxn lots txn =
     (if isBuy txn then lots @ [newLot txn]
      else if isSaleType txn then consume \<bar>txUnits txn\<bar> lots
      else lots)"

definition npsKey :: "prepared \<Rightarrow> string" where
  "npsKey txn = schemeName txn @ ''||'' @ accountName txn"

definition npsStep :: "(string \<times> lot list) list \<Rightarrow> prepared \<Rightarrow> (string \<times> lot list) list" where
  "npsStep m txn = AList.update (npsKey txn) (applyTxn (getOrEmpty m (npsKey txn)) txn) m"

definition lotsByScheme :: "row list \<Rightarrow> (string \<times> lot list) list" where
  "lotsByScheme transactions = foldl npsStep [] (preparedTransactions transactions)"

record holding =
  hSchemeName :: string
  hAccountName :: string
  hUnits :: real
  hInvested :: real
  hMarketValue :: real
  hCmp :: real

record nps_result =
  marketValue :: real
  npsInvested :: real
  holdings :: "holding list"

text \<open>\<open>const [schemeName, accountName] = key.split('||')\<close>; a key always has the
  separator in it, so there are at least two pieces.\<close>

definition keyParts :: "string \<Rightarrow> string \<times> string" where
  "keyParts key =
     (case splitBars [] key of
        s # a # rest \<Rightarrow> (s, a)
      | [s] \<Rightarrow> (s, [])
      | [] \<Rightarrow> ([], []))"

definition openLots :: "lot list \<Rightarrow> lot list" where
  "openLots lots = filter (\<lambda>l. lotUnits l > eps) lots"

definition totalUnits :: "lot list \<Rightarrow> real" where
  "totalUnits lots = foldl (\<lambda>s l. s + lotUnits l) 0 lots"

definition totalCost :: "lot list \<Rightarrow> real" where
  "totalCost lots = foldl (\<lambda>s l. s + max (lotCost l) 0) 0 lots"

text \<open>The price map: \<open>cmpMap.get(schemeName) || 0\<close>.\<close>

definition cmpOf :: "(string \<rightharpoonup> real) \<Rightarrow> string \<Rightarrow> real" where
  "cmpOf cmpMap s = (case cmpMap s of None \<Rightarrow> 0 | Some c \<Rightarrow> c)"

definition holdingStep :: "(string \<rightharpoonup> real) \<Rightarrow> nps_result \<Rightarrow> string \<times> lot list \<Rightarrow> nps_result" where
  "holdingStep cmpMap res kv =
     (let parts = keyParts (fst kv); ol = openLots (snd kv) in
      if ol = [] then res
      else let tu = totalUnits ol; tc = totalCost ol;
               cmp = cmpOf cmpMap (fst parts); mv = tu * cmp
           in \<lparr> marketValue = marketValue res + mv,
                npsInvested = npsInvested res + tc,
                holdings = holdings res @
                  [\<lparr> hSchemeName = fst parts, hAccountName = snd parts, hUnits = tu,
                     hInvested = tc, hMarketValue = mv, hCmp = cmp \<rparr>] \<rparr>)"

definition calculateNPSHoldings :: "row list \<Rightarrow> (string \<rightharpoonup> real) \<Rightarrow> nps_result" where
  "calculateNPSHoldings transactions cmpMap =
     foldl (holdingStep cmpMap) \<lparr> marketValue = 0, npsInvested = 0, holdings = [] \<rparr>
       (lotsByScheme transactions)"

subsection \<open>Conservation of units\<close>

text \<open>
  The sale branch is taken by a transaction that is not a buy and is of sale type. The sum
  of the open lot units of a key is what the holdings loop computes for it.
\<close>

definition isSale :: "prepared \<Rightarrow> bool" where
  "isSale txn = (\<not> isBuy txn \<and> isSaleType txn)"

definition openUnits :: "row list \<Rightarrow> string \<Rightarrow> real" where
  "openUnits transactions k = totalUnits (openLots (getOrEmpty (lotsByScheme transactions) k))"

text \<open>The units bought and the units sold for a key over the whole sequence, and the
  claimed value of the open units: their difference, clamped at 0.\<close>

definition totalBought :: "string \<Rightarrow> prepared list \<Rightarrow> real" where
  "totalBought k ps = (\<Sum>p\<leftarrow>filter (\<lambda>p. npsKey p = k \<and> isBuy p) ps. txUnits p)"

definition totalSold :: "string \<Rightarrow> prepared list \<Rightarrow> real" where
  "totalSold k ps = (\<Sum>p\<leftarrow>filter (\<lambda>p. npsKey p = k \<and> isSale p) ps. \<bar>txUnits p\<bar>)"

definition clampedDifference :: "row list \<Rightarrow> string \<Rightarrow> real" where
  "clampedDifference transactions k =
     max 0 (totalBought k (preparedTransactions transactions)
            - totalSold k (preparedTransactions transactions))"

text \<open>The running balance of a key: a buy adds its units, a sale subtracts its units and
  is clamped at 0 there and then.\<close>

definition balanceStep :: "real \<Rightarrow> prepared \<Rightarrow> real" where
  "balanceStep b txn =
     (if isBuy txn then b + txUnits txn
      else if isSaleType txn then max 0 (b - \<bar>txUnits txn\<bar>)
      else b)"

definition runningBalance :: "row list \<Rightarrow> string \<Rightarrow> real" where
  "runningBalance transactions k =
     foldl balanceStep 0 (filter (\<lambda>p. npsKey p = k) (preparedTransactions transactions))"

definition salesCount :: "row list \<Rightarrow> string \<Rightarrow> nat" where
  "salesCount transactions k =
     length (filter isSale (filter (\<lambda>p. npsKey p = k) (preparedTransactions transactions)))"

section \<open>The rate solver\<close>

text \<open>
  A cashflow after the \<open>map\<close> of \<open>calculateXirr\<close>: \<open>Number(cf.amount)\<close> and
  \<open>new Date(cf.date)\<close>.
\<close>

record cashflow =
  cfAmount :: jsnum
  cfDate :: jsdate

definition cfValid :: "cashflow \<Rightarrow> bool" where
  "cfValid cf = (isFinite (cfAmount cf) \<and> cfAmount cf \<noteq> Fin 0 \<and> cfDate cf \<noteq> InvalidDate)"

definition cfTime :: "cashflow \<Rightarrow> real" where
  "cfTime cf = num (valueOf (cfDate cf))"

definition cfCompare :: "cashflow \<Rightarrow> cashflow \<Rightarrow> jsnum" where
  "cfCompare a b = jsSub (valueOf (cfDate a)) (valueOf (cfDate b))"

definition MS_PER_YEAR :: real where
  "MS_PER_YEAR = 1000 * 60 * 60 * 24 * 365"

text \<open>\<open>Math.pow\<close> for a positive base (the base is \<open>1 + rate\<close> with \<open>rate > -0.9999\<close>);
  \<open>Math.pow(x, 0)\<close> is 1 for every \<open>x\<close>.\<close>

definition mathPow :: "real \<Rightarrow> real \<Rightarrow> real" where
  "mathPow x y = (if y = 0 then 1 else x powr y)"

definition npv :: "cashflow list \<Rightarrow> real \<Rightarrow> real" where
  "npv cashflows rate =
     foldl (\<lambda>acc cf. acc + num (cfAmount cf) /
              mathPow (1 + rate) ((cfTime cf - cfTime (hd cashflows)) / MS_PER_YEAR))
       0 cashflows"

text \<open>The \<open>for\<close> loop, with the number of rounds left as first argument.\<close>

fun bisect :: "nat \<Rightarrow> (real \<Rightarrow> real) \<Rightarrow> real \<Rightarrow> real \<Rightarrow> real \<Rightarrow> real" where
  "bisect 0 f low high mid = mid * 100"
| "bisect (Suc n) f low high mid =
     (let mid' = (low + high) / 2; v = f mid'
      in if \<bar>v\<bar> < 1 / 10 ^ 6 then mid' * 100
         else if v > 0 then bisect n f mid' high mid'
         else bisect n f low mid' mid')"

definition calculateXirr :: "cashflow list \<Rightarrow> real" where
  "calculateXirr flows =
     (if length flows < 2 then 0
      else let cashflows = jsSort cfCompare (filter cfValid flows) in
        if cashflows = [] then 0
        else bisect 100 (npv cashflows) (- 0.9999) 100 0)"

section \<open>Example rows\<close>

text \<open>Rows of the PPF table and of the NPS table with the fields the aggregators read;
  the date is given by its time, in January 2024.\<close>

definition bankRow :: "string \<Rightarrow> string \<Rightarrow> int \<Rightarrow> int \<Rightarrow> nat \<Rightarrow> real \<Rightarrow> row" where
  "bankRow acct ty t y m a =
     emptyRow\<lparr> account_name := acct, bank_name := ''HDFC'', account_type := ty,
               txn_date := DText (ValidDate t y m), amount := JNumber (Fin a) \<rparr>"

definition ppfRow :: "string \<Rightarrow> string \<Rightarrow> int \<Rightarrow> real \<Rightarrow> row" where
  "ppfRow acct ty t a =
     emptyRow\<lparr> account_name := acct, transaction_type := ty,
               txn_date := DText (ValidDate t 2024 0), amount := JNumber (Fin a) \<rparr>"

definition npsRow :: "string \<Rightarrow> int \<Rightarrow> real \<Rightarrow> real \<Rightarrow> row" where
  "npsRow ty t u n =
     emptyRow\<lparr> scheme_name := ''Scheme E'', account_name := ''Tier 1'', transaction_type := ty,
               units := JNumber (Fin u), nav := JNumber (Fin n),
               date := DText (ValidDate t 2024 0) \<rparr>"

definition examplePrepared :: "string \<Rightarrow> real \<Rightarrow> prepared" where
  "examplePrepared ty u =
     \<lparr> schemeName = ''Scheme E'', accountName = ''Tier 1'', txType = ty, txUnits = u,
       txNav = 10, effectiveDate = None, txIndex = 7 \<rparr>"

definition exampleLot :: "real \<Rightarrow> nat \<Rightarrow> lot" where
  "exampleLot u i =
     \<lparr> lotUnits = u, lotCost = u * 10, lotDate = None, lotOrder = PosInf, lotSequence = i \<rparr>"

text \<open>The defining equations, collected for evaluating the model on concrete inputs.\<close>

lemmas string_defs = isDigit_def digitVal_def digitsVal_def toLowerChar_def toLowerCase_def
  isSpace_def trim_def keepChar_def

lemmas number_defs = roundDouble_def parseFloat_def Let_def

lemmas bank_defs = bankZero_def isBankType_def latestStep_def latestMonthNumeric_def
  bankKey_def bankGroups_def bankCompare_def inMonth_def bankMatch_def bankAdd_def
  calculateBankHoldings_def newDateOr0_def jsSort_def getOrEmpty_def pushTo_def emptyRow_def
  bankMatches_def amountOfType_def latestMonthSum_def bankRow_def List.map_filter_def
  txnTime_def

lemmas fund_defs = objectPrototypeKeys_def ppfKey_def ppfPush_def isArrayIndex_def
  objectValues_def ppfCompare_def withdraw_def ppfStep_def ppfAccount_def ppfTotals_def
  calculatePPFHoldings_def jsSort_def emptyRow_def

lemmas nps_defs = eps_def pickDate_def effectiveDateOf_def preparedOf_def prepare_def timeOf_def npsCompare_def
  preparedTransactions_def FIFO_KEYWORDS_def isSaleType_def isBuy_def newLot_def
  applyTxn_def npsKey_def npsStep_def lotsByScheme_def keyParts_def openLots_def
  totalUnits_def totalCost_def cmpOf_def holdingStep_def calculateNPSHoldings_def
  jsSort_def getOrEmpty_def emptyRow_def List.map_filter_def isSale_def openUnits_def
  totalBought_def totalSold_def clampedDifference_def balanceStep_def runningBalance_def
  salesCount_def

section \<open>Properties\<close>

subsection \<open>The numeric parser\<close>

lemma isFinite_iff: "isFinite n \<longleftrightarrow> (\<exists>r. n = Fin r)"
  by (cases n) simp_all

lemma toNumber_isFinite: "isFinite (toNumber v)"
  by (cases v) (simp_all add: Let_def)

text \<open>On every value that \<open>String\<close> can convert the result is a finite number: 0 for null,
  for undefined, for a non-finite number and for text whose digits, dots and minus signs
  do not parse to a finite number.\<close>

lemma toNumber_finite:
  "(\<exists>r. toNumber v = Fin r) \<and>
   toNumber JNull = Fin 0 \<and> toNumber JUndefined = Fin 0 \<and>
   (\<not> isFinite n \<longrightarrow> toNumber (JNumber n) = Fin 0) \<and>
   (\<not> isFinite (parseFloat (filter keepChar s)) \<longrightarrow>
      toNumber (JString s) = Fin 0 \<and> toNumber (JOther s) = Fin 0)"
proof -
  have "\<exists>r. toNumber v = Fin r"
    using toNumber_isFinite [of v] by (simp add: isFinite_iff)
  then show ?thesis
    by simp
qed

lemma toNumberCall_returns: "toNumberCall a = Inr n \<Longrightarrow> isFinite n"
  by (cases a) (auto simp del: toNumber.simps simp: toNumber_isFinite split: if_splits)


subsection \<open>Totals\<close>

lemma ppfGrouped_returns:
  "\<forall>t \<in> set txns. ppfKey t \<notin> set objectPrototypeKeys \<Longrightarrow> \<exists>g. ppfGrouped acc txns = Inr g"
  by (induction txns arbitrary: acc) (auto simp: ppfPush_def Let_def split: option.splits)

text \<open>The PPF aggregator returns whenever no account is named like a property of
  \<open>Object.prototype\<close>.\<close>

lemma calculatePPFHoldings_returns:
  assumes "\<forall>t \<in> set txns. ppfKey t \<notin> set objectPrototypeKeys"
  shows "\<exists>r. calculatePPFHoldings txns = Inr r"
proof -
  obtain g where "ppfGrouped [] txns = Inr g"
    using ppfGrouped_returns [OF assms] by blast
  then show ?thesis by (simp add: calculatePPFHoldings_def Let_def)
qed

text \<open>
  C9. The bank result's total is the sum of its savings and demat fields, and whenever the
  PPF aggregator returns a result, its total is the sum of its invested and interest
  fields.
\<close>

theorem total_is_sum_of_components:
  "bankTotal (calculateBankHoldings txns) =
     savings (calculateBankHoldings txns) + demat (calculateBankHoldings txns) \<and>
   (calculatePPFHoldings txns = Inr r \<longrightarrow> total r = invested r + interest r)"
proof
  show "bankTotal (calculateBankHoldings txns) =
     savings (calculateBankHoldings txns) + demat (calculateBankHoldings txns)"
    by (simp add: calculateBankHoldings_def bankZero_def Let_def split: option.splits)
next
  show "calculatePPFHoldings txns = Inr r \<longrightarrow> total r = invested r + interest r"
    by (auto simp: calculatePPFHoldings_def Let_def split: sum.splits)
qed

theorem total_is_sum_of_components_witness:
  "calculatePPFHoldings [emptyRow\<lparr> transaction_type := ''deposit'', amount := JNumber (Fin 50) \<rparr>]
     = Inr \<lparr> invested = 50, interest = 0, total = 50 \<rparr> \<and>
   total \<lparr> invested = 50, interest = 0, total = 50 \<rparr> =
     invested \<lparr> invested = 50, interest = 0, total = (50::real) \<rparr> +
     interest \<lparr> invested = 50, interest = 0, total = (50::real) \<rparr>"
proof -
  have h: "calculatePPFHoldings
      [emptyRow\<lparr> transaction_type := ''deposit'', amount := JNumber (Fin 50) \<rparr>]
     = Inr \<lparr> invested = 50, interest = 0, total = 50 \<rparr>"
    by (simp add: fund_defs string_defs number_defs)
  from total_is_sum_of_components [of _ "\<lparr> invested = 50, interest = 0, total = 50 \<rparr>"] h
  have "total \<lparr> invested = 50, interest = 0, total = 50 \<rparr> =
     invested \<lparr> invested = 50, interest = 0, total = (50::real) \<rparr> +
     interest \<lparr> invested = 50, interest = 0, total = (50::real) \<rparr>"
    by blast
  with h show ?thesis by blast
qed

subsection \<open>Sorting what is sorted already\<close>

lemma jsSort_Cons: "jsSort cmp (x # xs) = insertBy cmp x (jsSort cmp xs)"
  by (simp add: jsSort_def)


subsection \<open>The withdrawal rule of the provident fund\<close>

lemma withdraw_eq:
  "withdraw amt (dep, intr) =
     (dep - min (amt - min amt intr) dep, intr - min amt intr)"
  by (simp add: withdraw_def Let_def)

lemma withdraw_nonneg: "0 \<le> fst (withdraw amt st) \<and> 0 \<le> snd (withdraw amt st)"
  by (simp add: withdraw_def Let_def)

lemma ppfGrouped_same_key:
  assumes "\<forall>t \<in> set txns. ppfKey t = k"
  shows "ppfGrouped [(k, pre)] txns = Inr [(k, pre @ txns)]"
  using assms by (induction txns arbitrary: pre) (simp_all add: ppfPush_def)

lemma ppfGrouped_one_account:
  assumes "\<forall>t \<in> set txns. ppfKey t = k" and "k \<notin> set objectPrototypeKeys" and "txns \<noteq> []"
  shows "ppfGrouped [] txns = Inr [(k, txns)]"
proof (cases txns)
  case Nil
  with assms show ?thesis by simp
next
  case (Cons t ts)
  with assms have "ppfPush [] t = Inr [(k, [t])]"
    by (simp add: ppfPush_def)
  moreover from Cons assms have "ppfGrouped [(k, [t])] ts = Inr [(k, [t] @ ts)]"
    by (intro ppfGrouped_same_key) simp
  ultimately show ?thesis using Cons by simp
qed

lemma objectValues_single: "objectValues [(k, v)] = [v]"
  by (simp add: objectValues_def)

lemma foldl_deposits:
  "\<forall>t \<in> set ds. toLowerCase (transaction_type t) = ''deposit'' \<Longrightarrow>
   foldl ppfStep st ds = (fst st + (\<Sum>t\<leftarrow>ds. num (toNumber (amount t))), snd st)"
  by (induction ds arbitrary: st) (simp_all add: ppfStep_def Let_def algebra_simps)

lemma foldl_interests:
  "\<forall>t \<in> set cs. toLowerCase (transaction_type t) = ''interest'' \<Longrightarrow>
   foldl ppfStep st cs = (fst st, snd st + (\<Sum>t\<leftarrow>cs. num (toNumber (amount t))))"
  by (induction cs arbitrary: st) (simp_all add: ppfStep_def Let_def algebra_simps)

text \<open>
  C5. A withdrawal takes \<open>min(amount, interest)\<close> from the interest bucket and the rest,
  up to the principal, from the principal bucket; neither bucket is negative afterwards.
  For one account whose transactions in date order are deposits totalling 1000, interest
  credits totalling 200 and then a withdrawal of 300, the result is invested 900 and
  interest 0.
\<close>

theorem ppf_withdrawal:
  "(toLowerCase (transaction_type txn) = ''withdrawal'' \<longrightarrow>
      ppfStep (dep, intr) txn =
        (dep - min (num (toNumber (amount txn)) - min (num (toNumber (amount txn))) intr) dep,
         intr - min (num (toNumber (amount txn))) intr) \<and>
      0 \<le> fst (ppfStep (dep, intr) txn) \<and> 0 \<le> snd (ppfStep (dep, intr) txn)) \<and>
   ((\<forall>t \<in> set txns. ppfKey t = k) \<and> k \<notin> set objectPrototypeKeys \<and>
    jsSort ppfCompare txns = ds @ cs @ [w] \<and>
    (\<forall>t \<in> set ds. toLowerCase (transaction_type t) = ''deposit'') \<and>
    (\<forall>t \<in> set cs. toLowerCase (transaction_type t) = ''interest'') \<and>
    toLowerCase (transaction_type w) = ''withdrawal'' \<and>
    (\<Sum>t\<leftarrow>ds. num (toNumber (amount t))) = 1000 \<and>
    (\<Sum>t\<leftarrow>cs. num (toNumber (amount t))) = 200 \<and>
    num (toNumber (amount w)) = 300 \<longrightarrow>
    calculatePPFHoldings txns = Inr \<lparr> invested = 900, interest = 0, total = 900 \<rparr>)"
proof (intro conjI impI)
  assume w: "toLowerCase (transaction_type txn) = ''withdrawal''"
  then have step: "ppfStep (dep, intr) txn = withdraw (num (toNumber (amount txn))) (dep, intr)"
    by (simp add: ppfStep_def Let_def)
  show "ppfStep (dep, intr) txn =
        (dep - min (num (toNumber (amount txn)) - min (num (toNumber (amount txn))) intr) dep,
         intr - min (num (toNumber (amount txn))) intr)"
    by (simp only: step withdraw_eq)
  show "0 \<le> fst (ppfStep (dep, intr) txn)"
    using withdraw_nonneg by (simp only: step)
  show "0 \<le> snd (ppfStep (dep, intr) txn)"
    using withdraw_nonneg by (simp only: step)
next
  assume a: "(\<forall>t \<in> set txns. ppfKey t = k) \<and> k \<notin> set objectPrototypeKeys \<and>
    jsSort ppfCompare txns = ds @ cs @ [w] \<and>
    (\<forall>t \<in> set ds. toLowerCase (transaction_type t) = ''deposit'') \<and>
    (\<forall>t \<in> set cs. toLowerCase (transaction_type t) = ''interest'') \<and>
    toLowerCase (transaction_type w) = ''withdrawal'' \<and>
    (\<Sum>t\<leftarrow>ds. num (toNumber (amount t))) = 1000 \<and>
    (\<Sum>t\<leftarrow>cs. num (toNumber (amount t))) = 200 \<and>
    num (toNumber (amount w)) = 300"
  then have ne: "txns \<noteq> []"
    by (auto simp: jsSort_def)
  with a have g: "ppfGrouped [] txns = Inr [(k, txns)]"
    by (intro ppfGrouped_one_account) simp_all
  have d: "foldl ppfStep (0, 0) ds = (1000, 0)"
    using a foldl_deposits [of ds "(0, 0)"] by simp
  have c: "foldl ppfStep (1000, 0) cs = (1000, 200)"
    using a foldl_interests [of cs "(1000, 0)"] by simp
  have "ppfStep (1000, 200) w = withdraw 300 (1000, 200)"
    using a by (simp add: ppfStep_def Let_def)
  then have "ppfStep (1000, 200) w = (900, 0)"
    by (simp add: withdraw_eq)
  with a d c have "ppfAccount txns = (900, 0)"
    by (simp add: ppfAccount_def)
  with g show "calculatePPFHoldings txns = Inr \<lparr> invested = 900, interest = 0, total = 900 \<rparr>"
    by (simp add: calculatePPFHoldings_def objectValues_single ppfTotals_def Let_def)
qed

theorem ppf_withdrawal_witness:
  "toLowerCase (transaction_type (ppfRow ''A'' ''Withdrawal'' 4 300)) = ''withdrawal'' \<and>
   ppfStep (1000, 200) (ppfRow ''A'' ''Withdrawal'' 4 300) = (900, 0) \<and>
   jsSort ppfCompare
     [ppfRow ''A'' ''Withdrawal'' 4 300, ppfRow ''A'' ''Deposit'' 1 400,
      ppfRow ''A'' ''Interest'' 3 200, ppfRow ''A'' ''Deposit'' 2 600]
   = [ppfRow ''A'' ''Deposit'' 1 400, ppfRow ''A'' ''Deposit'' 2 600] @
     [ppfRow ''A'' ''Interest'' 3 200] @ [ppfRow ''A'' ''Withdrawal'' 4 300] \<and>
   calculatePPFHoldings
     [ppfRow ''A'' ''Withdrawal'' 4 300, ppfRow ''A'' ''Deposit'' 1 400,
      ppfRow ''A'' ''Interest'' 3 200, ppfRow ''A'' ''Deposit'' 2 600]
   = Inr \<lparr> invested = 900, interest = 0, total = 900 \<rparr>"
proof -
  let ?w = "ppfRow ''A'' ''Withdrawal'' 4 300"
  let ?d1 = "ppfRow ''A'' ''Deposit'' 1 400"
  let ?d2 = "ppfRow ''A'' ''Deposit'' 2 600"
  let ?c = "ppfRow ''A'' ''Interest'' 3 200"
  have ty: "toLowerCase (transaction_type ?w) = ''withdrawal''"
    "toLowerCase (transaction_type ?d1) = ''deposit''"
    "toLowerCase (transaction_type ?d2) = ''deposit''"
    "toLowerCase (transaction_type ?c) = ''interest''"
    by (simp_all add: ppfRow_def emptyRow_def string_defs)
  have am: "num (toNumber (amount ?w)) = 300" "num (toNumber (amount ?d1)) = 400"
    "num (toNumber (amount ?d2)) = 600" "num (toNumber (amount ?c)) = 200"
    by (simp_all add: ppfRow_def emptyRow_def)
  have key: "\<forall>t \<in> set [?w, ?d1, ?c, ?d2]. ppfKey t = ''A''"
    by (simp add: ppfRow_def emptyRow_def ppfKey_def)
  have k: "''A'' \<notin> set objectPrototypeKeys"
    by (simp add: objectPrototypeKeys_def)
  have srt: "jsSort ppfCompare [?w, ?d1, ?c, ?d2] = [?d1, ?d2] @ [?c] @ [?w]"
    by (simp add: jsSort_def ppfCompare_def ppfRow_def emptyRow_def)
  have st: "ppfStep (1000, 200) ?w = (900, 0)"
    using ppf_withdrawal [of ?w 1000 200] ty am by simp
  have "calculatePPFHoldings [?w, ?d1, ?c, ?d2]
      = Inr \<lparr> invested = 900, interest = 0, total = 900 \<rparr>"
    using ppf_withdrawal [of ?w 1000 200 "[?w, ?d1, ?c, ?d2]" "''A''" "[?d1, ?d2]" "[?c]" ?w]
      ty am key k srt by simp
  with ty st srt show ?thesis by blast
qed

subsection \<open>The FIFO queue\<close>

declare consume.simps [simp del]

lemma eps_pos: "0 < eps"
  by (simp add: eps_def)

lemma consume_small: "remaining \<le> eps \<Longrightarrow> consume remaining lots = lots"
  by (cases lots) (simp_all add: consume.simps)

lemma consume_Nil: "consume remaining [] = []"
  by (simp add: consume.simps)

lemma consume_shift:
  "eps < remaining \<Longrightarrow> lotUnits l - min remaining (lotUnits l) \<le> eps \<Longrightarrow>
   consume remaining (l # lots) = consume (remaining - min remaining (lotUnits l)) lots"
  by (simp add: consume.simps Let_def)

lemma consume_keep:
  assumes "eps < remaining" and "\<not> lotUnits l - min remaining (lotUnits l) \<le> eps"
  shows "consume remaining (l # lots) = l\<lparr> lotUnits := lotUnits l - remaining \<rparr> # lots"
proof -
  from assms eps_pos have m: "min remaining (lotUnits l) = remaining"
    by (auto simp: min_def split: if_splits)
  have "consume remaining (l # lots)
      = consume (remaining - remaining) (l\<lparr> lotUnits := lotUnits l - remaining \<rparr> # lots)"
    using assms m by (simp add: consume.simps Let_def)
  also have "\<dots> = l\<lparr> lotUnits := lotUnits l - remaining \<rparr> # lots"
    using eps_pos by (intro consume_small) simp
  finally show ?thesis .
qed

text \<open>A sale never adds a lot: what is left is a tail of the queue, its front lot
  possibly with fewer units and every other lot as it was.\<close>

lemma consume_suffix:
  "\<exists>k. consume remaining lots = drop k lots \<or>
       (k < length lots \<and> (\<exists>u. consume remaining lots = (lots ! k)\<lparr> lotUnits := u \<rparr> # drop (Suc k) lots))"
proof (induction lots arbitrary: remaining)
  case Nil
  show ?case by (simp add: consume_Nil)
next
  case (Cons l lots)
  show ?case
  proof (cases "eps < remaining")
    case False
    then have "consume remaining (l # lots) = drop 0 (l # lots)"
      by (simp add: consume_small)
    then show ?thesis by blast
  next
    case True
    show ?thesis
    proof (cases "lotUnits l - min remaining (lotUnits l) \<le> eps")
      case shift: True
      from Cons.IH [of "remaining - min remaining (lotUnits l)"]
      obtain k where k: "consume (remaining - min remaining (lotUnits l)) lots = drop k lots \<or>
        (k < length lots \<and> (\<exists>u. consume (remaining - min remaining (lotUnits l)) lots
            = (lots ! k)\<lparr> lotUnits := u \<rparr> # drop (Suc k) lots))"
        by blast
      have "consume remaining (l # lots) = drop (Suc k) (l # lots) \<or>
        (Suc k < length (l # lots) \<and> (\<exists>u. consume remaining (l # lots)
            = ((l # lots) ! Suc k)\<lparr> lotUnits := u \<rparr> # drop (Suc (Suc k)) (l # lots)))"
        using k by (simp add: consume_shift [OF True shift])
      then show ?thesis by blast
    next
      case keep: False
      have "consume remaining (l # lots)
            = ((l # lots) ! 0)\<lparr> lotUnits := lotUnits l - remaining \<rparr> # drop (Suc 0) (l # lots)"
        by (simp add: consume_keep [OF True keep])
      then have "0 < length (l # lots) \<and> (\<exists>u. consume remaining (l # lots)
            = ((l # lots) ! 0)\<lparr> lotUnits := u \<rparr> # drop (Suc 0) (l # lots))"
        by blast
      then show ?thesis by blast
    qed
  qed
qed

lemma consume_length: "length (consume remaining lots) \<le> length lots"
proof -
  obtain k where "consume remaining lots = drop k lots \<or>
       (k < length lots \<and> (\<exists>u. consume remaining lots = (lots ! k)\<lparr> lotUnits := u \<rparr> # drop (Suc k) lots))"
    using consume_suffix by blast
  then show ?thesis by auto
qed

text \<open>
  C10. A prepared transaction whose type contains \<open>buy\<close> and whose units are negative is
  a sale: it pushes no lot, and the queue of its key becomes what the FIFO loop leaves of
  it for the absolute units, never longer than before.
\<close>

theorem negative_buy_is_sale:
  assumes "includesStr (txType txn) ''buy''" and "txUnits txn < 0"
  shows "isSaleType txn \<and> \<not> isBuy txn \<and>
         applyTxn lots txn = consume \<bar>txUnits txn\<bar> lots \<and>
         length (applyTxn lots txn) \<le> length lots \<and>
         npsStep m txn =
           AList.update (npsKey txn) (consume \<bar>txUnits txn\<bar> (getOrEmpty m (npsKey txn))) m"
proof -
  from assms have s: "isSaleType txn" and b: "\<not> isBuy txn"
    by (simp_all add: isSaleType_def isBuy_def)
  then have a: "applyTxn lots txn = consume \<bar>txUnits txn\<bar> lots" for lots
    by (simp add: applyTxn_def)
  then show ?thesis
    using s b by (simp add: npsStep_def consume_length)
qed

theorem negative_buy_is_sale_witness:
  "includesStr (txType (examplePrepared ''buy'' (- 2))) ''buy'' \<and>
   txUnits (examplePrepared ''buy'' (- 2)) < 0 \<and>
   isSaleType (examplePrepared ''buy'' (- 2)) \<and>
   applyTxn [exampleLot 5 0, exampleLot 3 1] (examplePrepared ''buy'' (- 2))
     = [(exampleLot 5 0)\<lparr> lotUnits := 3 \<rparr>, exampleLot 3 1]"
proof -
  have h: "includesStr (txType (examplePrepared ''buy'' (- 2))) ''buy''"
    "txUnits (examplePrepared ''buy'' (- 2)) < 0"
    by (simp_all add: examplePrepared_def)
  have c: "consume \<bar>txUnits (examplePrepared ''buy'' (- 2))\<bar> [exampleLot 5 0, exampleLot 3 1]
      = [(exampleLot 5 0)\<lparr> lotUnits := 3 \<rparr>, exampleLot 3 1]"
    by (simp add: examplePrepared_def exampleLot_def consume.simps eps_def)
  show ?thesis
    using negative_buy_is_sale [OF h, of "[exampleLot 5 0, exampleLot 3 1]" "[]"] h c
    by simp
qed

subsection \<open>The queue of one key\<close>

lemma getOrEmpty_update:
  "getOrEmpty (AList.update k v m) k' = (if k' = k then v else getOrEmpty m k')"
  by (simp add: getOrEmpty_def update_conv')

lemma lots_of_key:
  "getOrEmpty (foldl npsStep m ps) k =
     foldl applyTxn (getOrEmpty m k) (filter (\<lambda>p. npsKey p = k) ps)"
  by (induction ps arbitrary: m) (simp_all add: npsStep_def getOrEmpty_update)

lemma lotsByScheme_key:
  "getOrEmpty (lotsByScheme txns) k =
     foldl applyTxn [] (filter (\<lambda>p. npsKey p = k) (preparedTransactions txns))"
proof -
  have "getOrEmpty ([] :: (string \<times> lot list) list) k = []"
    by (simp add: getOrEmpty_def)
  then show ?thesis
    by (simp add: lotsByScheme_def lots_of_key)
qed


subsection \<open>Rows that arrive in date order\<close>










subsection \<open>Conservation of units, up to the threshold\<close>

lemma foldl_units: "foldl (\<lambda>s l. s + lotUnits l) a lots = a + (\<Sum>l\<leftarrow>lots. lotUnits l)"
  by (induction lots arbitrary: a) simp_all

lemma totalUnits_sum: "totalUnits lots = (\<Sum>l\<leftarrow>lots. lotUnits l)"
  by (simp add: totalUnits_def foldl_units)

lemma set_insertBy: "set (insertBy cmp x xs) = insert x (set xs)"
  by (induction xs) auto

lemma set_jsSort: "set (jsSort cmp xs) = set xs"
  by (induction xs) (simp_all add: jsSort_Cons set_insertBy, simp add: jsSort_def)

lemma prepared_units: "p \<in> set (preparedTransactions txns) \<Longrightarrow> eps < \<bar>txUnits p\<bar>"
  by (simp add: preparedTransactions_def set_jsSort)

lemma units_sum_nonneg: "\<forall>l \<in> set lots. eps < lotUnits l \<Longrightarrow> 0 \<le> (\<Sum>l\<leftarrow>lots. lotUnits l)"
  using eps_pos by (induction lots) (simp_all add: add_nonneg_nonneg less_imp_le order_less_trans)

lemma consume_inv:
  "\<forall>l \<in> set lots. eps < lotUnits l \<Longrightarrow> \<forall>l \<in> set (consume remaining lots). eps < lotUnits l"
proof (induction lots arbitrary: remaining)
  case Nil
  show ?case by (simp add: consume_Nil)
next
  case (Cons l lots)
  show ?case
  proof (cases "eps < remaining")
    case False
    with Cons.prems show ?thesis by (simp add: consume_small)
  next
    case True
    show ?thesis
    proof (cases "lotUnits l - min remaining (lotUnits l) \<le> eps")
      case shift: True
      from Cons.prems have "\<forall>l \<in> set lots. eps < lotUnits l" by simp
      then show ?thesis
        using Cons.IH by (simp only: consume_shift [OF True shift])
    next
      case keep: False
      with True eps_pos have "min remaining (lotUnits l) = remaining"
        by (auto simp: min_def split: if_splits)
      with keep Cons.prems show ?thesis
        by (simp add: consume_keep [OF True keep])
    qed
  qed
qed

text \<open>A sale of \<open>r\<close> units takes the sum of the queue to \<open>max 0 (sum - r)\<close>, up to the
  threshold.\<close>

lemma consume_sum:
  assumes "\<forall>l \<in> set lots. eps < lotUnits l" and "0 \<le> r"
  shows "\<bar>(\<Sum>l\<leftarrow>consume r lots. lotUnits l) - max 0 ((\<Sum>l\<leftarrow>lots. lotUnits l) - r)\<bar> \<le> eps"
  using assms
proof (induction lots arbitrary: r)
  case Nil
  then show ?case using eps_pos by (simp add: consume_Nil)
next
  case (Cons l lots)
  let ?S = "\<Sum>l\<leftarrow>lots. lotUnits l"
  from Cons.prems have u: "eps < lotUnits l" and rest: "\<forall>l \<in> set lots. eps < lotUnits l"
    by simp_all
  from rest have S: "0 \<le> ?S" by (rule units_sum_nonneg)
  show ?case
  proof (cases "eps < r")
    case False
    with u S Cons.prems(2) show ?thesis
      by (simp add: consume_small max_def)
  next
    case True
    show ?thesis
    proof (cases "lotUnits l - min r (lotUnits l) \<le> eps")
      case shift: True
      show ?thesis
      proof (cases "lotUnits l \<le> r")
        case whole: True
        then have m: "min r (lotUnits l) = lotUnits l" by simp
        from whole have "0 \<le> r - lotUnits l" by simp
        with rest have "\<bar>(\<Sum>l\<leftarrow>consume (r - lotUnits l) lots. lotUnits l)
            - max 0 (?S - (r - lotUnits l))\<bar> \<le> eps"
          by (rule Cons.IH)
        moreover have "?S - (r - lotUnits l) = lotUnits l + ?S - r" by simp
        ultimately show ?thesis
          using consume_shift [OF True shift] by (simp add: m)
      next
        case part: False
        then have m: "min r (lotUnits l) = r" by simp
        have "consume r (l # lots) = consume (r - r) lots"
          using consume_shift [OF True shift] by (simp only: m)
        also have "\<dots> = lots"
          using eps_pos by (intro consume_small) simp
        finally have c: "consume r (l # lots) = lots" .
        from shift m have "lotUnits l - r \<le> eps" by simp
        with part S show ?thesis
          by (simp add: c max_def)
      qed
    next
      case keep: False
      with True eps_pos have m: "min r (lotUnits l) = r"
        by (auto simp: min_def split: if_splits)
      with keep eps_pos have "0 < lotUnits l - r" by simp
      with S eps_pos show ?thesis
        by (simp add: consume_keep [OF True keep] max_def)
    qed
  qed
qed

lemma applyTxn_inv:
  assumes "\<forall>l \<in> set lots. eps < lotUnits l" and "eps < \<bar>txUnits p\<bar>"
  shows "\<forall>l \<in> set (applyTxn lots p). eps < lotUnits l"
  using assms consume_inv [of lots "\<bar>txUnits p\<bar>"]
  by (auto simp: applyTxn_def isBuy_def newLot_def)

lemma clamp_lipschitz: "\<bar>max 0 (a - s) - max 0 (b - s)\<bar> \<le> \<bar>a - b\<bar>" for a b s :: real
  by (simp add: max_def abs_if)

lemma applyTxn_balance:
  assumes inv: "\<forall>l \<in> set lots. eps < lotUnits l"
    and close: "\<bar>(\<Sum>l\<leftarrow>lots. lotUnits l) - b\<bar> \<le> e"
  shows "\<bar>(\<Sum>l\<leftarrow>applyTxn lots p. lotUnits l) - balanceStep b p\<bar>
           \<le> e + (if isSale p then eps else 0)"
proof (cases "isBuy p")
  case True
  with close show ?thesis
    by (simp add: applyTxn_def balanceStep_def isSale_def newLot_def)
next
  case notbuy: False
  show ?thesis
  proof (cases "isSaleType p")
    case False
    with notbuy close show ?thesis
      by (simp add: applyTxn_def balanceStep_def isSale_def)
  next
    case True
    let ?S = "\<Sum>l\<leftarrow>lots. lotUnits l"
    let ?s = "\<bar>txUnits p\<bar>"
    have "\<bar>(\<Sum>l\<leftarrow>consume ?s lots. lotUnits l) - max 0 (?S - ?s)\<bar> \<le> eps"
      using inv by (rule consume_sum) simp
    moreover have "\<bar>max 0 (?S - ?s) - max 0 (b - ?s)\<bar> \<le> e"
      using clamp_lipschitz [of ?S ?s b] close by linarith
    ultimately have "\<bar>(\<Sum>l\<leftarrow>consume ?s lots. lotUnits l) - max 0 (b - ?s)\<bar> \<le> e + eps"
      by linarith
    with notbuy True show ?thesis
      by (simp add: applyTxn_def balanceStep_def isSale_def)
  qed
qed

lemma foldl_balance:
  assumes "\<forall>l \<in> set lots. eps < lotUnits l"
    and "\<forall>p \<in> set ps. eps < \<bar>txUnits p\<bar>"
    and "\<bar>(\<Sum>l\<leftarrow>lots. lotUnits l) - b\<bar> \<le> e"
  shows "\<bar>(\<Sum>l\<leftarrow>foldl applyTxn lots ps. lotUnits l) - foldl balanceStep b ps\<bar>
           \<le> e + real (length (filter isSale ps)) * eps \<and>
         (\<forall>l \<in> set (foldl applyTxn lots ps). eps < lotUnits l)"
  using assms
proof (induction ps arbitrary: lots b e)
  case Nil
  then show ?case by simp
next
  case (Cons p ps)
  let ?e = "e + (if isSale p then eps else 0)"
  from Cons.prems have inv': "\<forall>l \<in> set (applyTxn lots p). eps < lotUnits l"
    by (intro applyTxn_inv) simp_all
  have close': "\<bar>(\<Sum>l\<leftarrow>applyTxn lots p. lotUnits l) - balanceStep b p\<bar> \<le> ?e"
    using Cons.prems(1,3) by (rule applyTxn_balance)
  from Cons.prems(2) have rest: "\<forall>p \<in> set ps. eps < \<bar>txUnits p\<bar>"
    by simp
  have "\<bar>(\<Sum>l\<leftarrow>foldl applyTxn (applyTxn lots p) ps. lotUnits l)
           - foldl balanceStep (balanceStep b p) ps\<bar>
         \<le> ?e + real (length (filter isSale ps)) * eps \<and>
        (\<forall>l \<in> set (foldl applyTxn (applyTxn lots p) ps). eps < lotUnits l)"
    using inv' rest close' by (rule Cons.IH)
  then show ?case
    by (cases "isSale p") (simp_all add: algebra_simps)
qed

text \<open>
  C3, as claimed, fails. A sale dated before the first buy finds no lot and is dropped, so
  a sale of 10 followed by a buy of 5 leaves 5 units open, while bought minus sold,
  clamped at 0, is 0. And a buy of 1 followed by a sale of 0.999999999 leaves nothing open
  (the lot's remaining 1e-9 units are at most the threshold and the lot is removed), while
  bought minus sold is 1e-9.
\<close>

theorem conservation_counterexample:
  "openUnits [npsRow ''Sell'' 1 10 20, npsRow ''Buy'' 2 5 20]
     (''Scheme E'' @ ''||'' @ ''Tier 1'') = 5 \<and>
   clampedDifference [npsRow ''Sell'' 1 10 20, npsRow ''Buy'' 2 5 20]
     (''Scheme E'' @ ''||'' @ ''Tier 1'') = 0 \<and>
   openUnits [npsRow ''Buy'' 1 1 20, npsRow ''Sell'' 2 (999999999 / 10 ^ 9) 20]
     (''Scheme E'' @ ''||'' @ ''Tier 1'') = 0 \<and>
   clampedDifference [npsRow ''Buy'' 1 1 20, npsRow ''Sell'' 2 (999999999 / 10 ^ 9) 20]
     (''Scheme E'' @ ''||'' @ ''Tier 1'') = 1 / 10 ^ 9"
proof (intro conjI)
  show "openUnits [npsRow ''Sell'' 1 10 20, npsRow ''Buy'' 2 5 20]
     (''Scheme E'' @ ''||'' @ ''Tier 1'') = 5"
    by (simp add: nps_defs string_defs npsRow_def upt_rec consume.simps)
  show "clampedDifference [npsRow ''Sell'' 1 10 20, npsRow ''Buy'' 2 5 20]
     (''Scheme E'' @ ''||'' @ ''Tier 1'') = 0"
    by (simp add: nps_defs string_defs npsRow_def upt_rec)
  show "openUnits [npsRow ''Buy'' 1 1 20, npsRow ''Sell'' 2 (999999999 / 10 ^ 9) 20]
     (''Scheme E'' @ ''||'' @ ''Tier 1'') = 0"
    by (simp add: nps_defs string_defs npsRow_def upt_rec consume.simps)
  show "clampedDifference [npsRow ''Buy'' 1 1 20, npsRow ''Sell'' 2 (999999999 / 10 ^ 9) 20]
     (''Scheme E'' @ ''||'' @ ''Tier 1'') = 1 / 10 ^ 9"
    by (simp add: nps_defs string_defs npsRow_def upt_rec)
qed

text \<open>
  C3, amended. For every transaction list and key, the sum of the open lot units is never
  negative, and it differs by at most 1e-8 per processed sale of that key from the running
  balance of the key: the balance that starts at 0, grows by the units of each buy and
  becomes \<open>max 0 (balance - units)\<close> at each sale, in processing order.
\<close>

theorem open_units_running_balance:
  "0 \<le> openUnits txns k \<and>
   \<bar>openUnits txns k - runningBalance txns k\<bar> \<le> real (salesCount txns k) * eps"
proof -
  let ?ps = "filter (\<lambda>p. npsKey p = k) (preparedTransactions txns)"
  have units: "\<forall>p \<in> set ?ps. eps < \<bar>txUnits p\<bar>"
    using prepared_units by auto
  have start: "\<forall>l \<in> set ([] :: lot list). eps < lotUnits l"
    "\<bar>(\<Sum>l\<leftarrow>([] :: lot list). lotUnits l) - 0\<bar> \<le> 0"
    by simp_all
  have fb: "\<bar>(\<Sum>l\<leftarrow>foldl applyTxn [] ?ps. lotUnits l) - foldl balanceStep 0 ?ps\<bar>
           \<le> 0 + real (length (filter isSale ?ps)) * eps \<and>
         (\<forall>l \<in> set (foldl applyTxn [] ?ps). eps < lotUnits l)"
    using start(1) units start(2) by (rule foldl_balance)
  then have inv: "\<forall>l \<in> set (getOrEmpty (lotsByScheme txns) k). eps < lotUnits l"
    unfolding lotsByScheme_key by blast
  then have "openLots (getOrEmpty (lotsByScheme txns) k) = getOrEmpty (lotsByScheme txns) k"
    by (simp add: openLots_def)
  then have ou: "openUnits txns k = (\<Sum>l\<leftarrow>foldl applyTxn [] ?ps. lotUnits l)"
    by (simp add: openUnits_def totalUnits_sum lotsByScheme_key)
  have "0 \<le> (\<Sum>l\<leftarrow>foldl applyTxn [] ?ps. lotUnits l)"
    using fb by (intro units_sum_nonneg) blast
  with fb show ?thesis
    by (simp add: ou runningBalance_def salesCount_def)
qed

theorem open_units_running_balance_witness:
  "runningBalance [npsRow ''Sell'' 1 10 20, npsRow ''Buy'' 2 5 20]
     (''Scheme E'' @ ''||'' @ ''Tier 1'') = 5 \<and>
   salesCount [npsRow ''Sell'' 1 10 20, npsRow ''Buy'' 2 5 20]
     (''Scheme E'' @ ''||'' @ ''Tier 1'') = 1 \<and>
   0 \<le> openUnits [npsRow ''Sell'' 1 10 20, npsRow ''Buy'' 2 5 20]
     (''Scheme E'' @ ''||'' @ ''Tier 1'') \<and>
   \<bar>openUnits [npsRow ''Sell'' 1 10 20, npsRow ''Buy'' 2 5 20]
      (''Scheme E'' @ ''||'' @ ''Tier 1'')
    - runningBalance [npsRow ''Sell'' 1 10 20, npsRow ''Buy'' 2 5 20]
      (''Scheme E'' @ ''||'' @ ''Tier 1'')\<bar>
   \<le> real (salesCount [npsRow ''Sell'' 1 10 20, npsRow ''Buy'' 2 5 20]
      (''Scheme E'' @ ''||'' @ ''Tier 1'')) * eps"
proof -
  have r: "runningBalance [npsRow ''Sell'' 1 10 20, npsRow ''Buy'' 2 5 20]
     (''Scheme E'' @ ''||'' @ ''Tier 1'') = 5"
    by (simp add: nps_defs string_defs npsRow_def upt_rec)
  have c: "salesCount [npsRow ''Sell'' 1 10 20, npsRow ''Buy'' 2 5 20]
     (''Scheme E'' @ ''||'' @ ''Tier 1'') = 1"
    by (simp add: nps_defs string_defs npsRow_def upt_rec)
  from r c open_units_running_balance
    [of "[npsRow ''Sell'' 1 10 20, npsRow ''Buy'' 2 5 20]" "''Scheme E'' @ ''||'' @ ''Tier 1''"]
  show ?thesis by blast
qed

subsection \<open>The bank snapshot\<close>

text \<open>
  C2, as claimed, fails: a group with two transactions in the latest month contributes the
  amount of the later one only. With balances 1000 in January, 2000 in February and 500
  and then 700 in March, the result is 700, not 1200.
\<close>

theorem bank_sum_counterexample:
  "savings (calculateBankHoldings
     [bankRow ''A'' ''Savings'' 100 2024 0 1000, bankRow ''A'' ''Savings'' 200 2024 1 2000,
      bankRow ''A'' ''Savings'' 300 2024 2 500, bankRow ''A'' ''Savings'' 310 2024 2 700]) = 700 \<and>
   latestMonthSum ''savings''
     [bankRow ''A'' ''Savings'' 100 2024 0 1000, bankRow ''A'' ''Savings'' 200 2024 1 2000,
      bankRow ''A'' ''Savings'' 300 2024 2 500, bankRow ''A'' ''Savings'' 310 2024 2 700] = 1200"
proof
  show "savings (calculateBankHoldings
     [bankRow ''A'' ''Savings'' 100 2024 0 1000, bankRow ''A'' ''Savings'' 200 2024 1 2000,
      bankRow ''A'' ''Savings'' 300 2024 2 500, bankRow ''A'' ''Savings'' 310 2024 2 700]) = 700"
    by (simp add: bank_defs string_defs)
  show "latestMonthSum ''savings''
     [bankRow ''A'' ''Savings'' 100 2024 0 1000, bankRow ''A'' ''Savings'' 200 2024 1 2000,
      bankRow ''A'' ''Savings'' 300 2024 2 500, bankRow ''A'' ''Savings'' 310 2024 2 700] = 1200"
    by (simp add: bank_defs string_defs)
qed

lemma getOrEmpty_pushTo:
  "getOrEmpty (pushTo g k x) k' = (if k' = k then getOrEmpty g k @ [x] else getOrEmpty g k')"
  by (simp add: pushTo_def getOrEmpty_update)

lemma groups_get:
  "getOrEmpty (foldl (\<lambda>g t. pushTo g (key t) t) g0 xs) k
     = getOrEmpty g0 k @ filter (\<lambda>t. key t = k) xs"
  by (induction xs arbitrary: g0) (simp_all add: getOrEmpty_pushTo)

lemma groups_distinct:
  "distinct (map fst g0) \<Longrightarrow> distinct (map fst (foldl (\<lambda>g t. pushTo g (key t) t) g0 xs))"
  by (induction xs arbitrary: g0) (simp_all add: pushTo_def distinct_update)

lemma bankGroups_distinct: "distinct (map fst (bankGroups xs))"
  by (simp add: bankGroups_def groups_distinct)

text \<open>A group holds the transactions of its key, in the order given.\<close>

lemma bankGroups_entry:
  assumes "(k, l) \<in> set (bankGroups xs)"
  shows "l = filter (\<lambda>t. bankKey t = k) xs"
proof -
  have "map_of (bankGroups xs) k = Some l"
    using assms bankGroups_distinct by (simp add: map_of_eq_Some_iff)
  then have "getOrEmpty (bankGroups xs) k = l"
    by (simp add: getOrEmpty_def)
  moreover have "getOrEmpty ([] :: (string \<times> row list) list) k = []"
    by (simp add: getOrEmpty_def)
  then have "getOrEmpty (bankGroups xs) k = filter (\<lambda>t. bankKey t = k) xs"
    by (simp add: bankGroups_def groups_get)
  ultimately show ?thesis by simp
qed

lemma find_Some_props: "find P xs = Some m \<Longrightarrow> m \<in> set xs \<and> P m"
  by (induction xs) (auto split: if_splits)

lemma bankMatch_props:
  assumes "bankMatch latest l = Some m"
  shows "m \<in> set l \<and> truthy (txn_date m) \<and> inMonth latest m"
  using find_Some_props [OF assms [unfolded bankMatch_def]]
  by (simp add: set_jsSort)

lemma bankMatches_props:
  assumes "m \<in> set (bankMatches latest xs)"
  shows "m \<in> set xs \<and> truthy (txn_date m) \<and> inMonth latest m \<and>
         bankMatch latest (filter (\<lambda>t. bankKey t = bankKey m) xs) = Some m"
proof -
  from assms obtain g where g: "g \<in> set (bankGroups xs)" and m: "bankMatch latest (snd g) = Some m"
    by (auto simp: bankMatches_def List.map_filter_def)
  obtain k l where kl: "g = (k, l)" by (cases g)
  with g have l: "l = filter (\<lambda>t. bankKey t = k) xs"
    by (simp add: bankGroups_entry)
  from m kl have p: "m \<in> set l \<and> truthy (txn_date m) \<and> inMonth latest m"
    by (simp add: bankMatch_props)
  with l have "bankKey m = k" and "m \<in> set xs" by simp_all
  with p m kl l show ?thesis by simp
qed

lemma map_filter_distinct_keys:
  assumes "distinct (map fst gs)"
    and "\<forall>g \<in> set gs. \<forall>m. f (snd g) = Some m \<longrightarrow> key m = fst g"
  shows "distinct (map key (List.map_filter f (map snd gs)))"
  using assms
proof (induction gs)
  case Nil
  show ?case by simp
next
  case (Cons g gs)
  then have rest: "distinct (map key (List.map_filter f (map snd gs)))"
    by simp
  show ?case
  proof (cases "f (snd g)")
    case None
    with rest show ?thesis by simp
  next
    case (Some m)
    with Cons.prems have km: "key m = fst g" by simp
    have "key m \<notin> key ` set (List.map_filter f (map snd gs))"
    proof
      assume "key m \<in> key ` set (List.map_filter f (map snd gs))"
      then obtain m' g' where "g' \<in> set gs" "f (snd g') = Some m'" "key m' = key m"
        by (auto simp: List.map_filter_def)
      with Cons.prems(2) km have "fst g' = fst g" by simp
      moreover from Cons.prems(1) have "fst g \<notin> fst ` set gs" by simp
      ultimately show False using \<open>g' \<in> set gs\<close> by (metis imageI)
    qed
    with rest Some show ?thesis by simp
  qed
qed

text \<open>At most one transaction per group contributes.\<close>

lemma bankMatches_distinct: "distinct (map bankKey (bankMatches latest xs))"
  unfolding bankMatches_def
proof (rule map_filter_distinct_keys [OF bankGroups_distinct], intro ballI allI impI)
  fix g m
  assume g: "g \<in> set (bankGroups xs)" and m: "bankMatch latest (snd g) = Some m"
  obtain k l where kl: "g = (k, l)" by (cases g)
  with g have "l = filter (\<lambda>t. bankKey t = k) xs"
    by (simp add: bankGroups_entry)
  moreover from m kl have "m \<in> set l"
    by (simp add: bankMatch_props)
  ultimately show "bankKey m = fst g"
    using kl by simp
qed

lemma foldl_bankAdd:
  "foldl (bankAdd latest) acc ls =
     (fst acc + amountOfType ''savings'' (List.map_filter (bankMatch latest) ls),
      snd acc + amountOfType ''demat'' (List.map_filter (bankMatch latest) ls))"
proof (induction ls arbitrary: acc)
  case Nil
  show ?case by (simp add: amountOfType_def)
next
  case (Cons l ls)
  have step: "bankAdd latest acc l =
      (fst acc + amountOfType ''savings'' (List.map_filter (bankMatch latest) [l]),
       snd acc + amountOfType ''demat'' (List.map_filter (bankMatch latest) [l]))"
    by (cases "bankMatch latest l")
      (simp_all add: bankAdd_def amountOfType_def Let_def)
  have split: "amountOfType ty (List.map_filter (bankMatch latest) (l # ls))
      = amountOfType ty (List.map_filter (bankMatch latest) [l])
        + amountOfType ty (List.map_filter (bankMatch latest) ls)" for ty
    by (cases "bankMatch latest l") (simp_all add: amountOfType_def)
  have "foldl (bankAdd latest) acc (l # ls) = foldl (bankAdd latest) (bankAdd latest acc l) ls"
    by simp
  also have "\<dots> =
     (fst (bankAdd latest acc l) + amountOfType ''savings'' (List.map_filter (bankMatch latest) ls),
      snd (bankAdd latest acc l) + amountOfType ''demat'' (List.map_filter (bankMatch latest) ls))"
    by (rule Cons.IH)
  finally show ?case
    by (simp only: step split fst_conv snd_conv add.assoc)
qed

subsection \<open>Descending date order\<close>

lemma insertBy_sorted_desc:
  fixes f :: "'a \<Rightarrow> real"
  assumes cmp: "\<forall>a \<in> S. \<forall>b \<in> S. isPositive (cmp a b) \<longleftrightarrow> f a < f b"
    and "x \<in> S" and "set xs \<subseteq> S" and "sorted_wrt (\<lambda>a b. f b \<le> f a) xs"
  shows "sorted_wrt (\<lambda>a b. f b \<le> f a) (insertBy cmp x xs)"
  using assms(3,4)
proof (induction xs)
  case Nil
  show ?case by simp
next
  case (Cons y ys)
  from Cons.prems have y: "y \<in> S" and ys: "set ys \<subseteq> S"
    and below: "\<forall>z \<in> set ys. f z \<le> f y" and sorted: "sorted_wrt (\<lambda>a b. f b \<le> f a) ys"
    by simp_all
  show ?case
  proof (cases "isPositive (cmp x y)")
    case True
    with cmp \<open>x \<in> S\<close> y have "f x < f y" by blast
    with below have "\<forall>z \<in> set (insertBy cmp x ys). f z \<le> f y"
      by (auto simp: set_insertBy)
    moreover have "sorted_wrt (\<lambda>a b. f b \<le> f a) (insertBy cmp x ys)"
      using ys sorted by (rule Cons.IH)
    ultimately show ?thesis using True by simp
  next
    case False
    with cmp \<open>x \<in> S\<close> y have "f y \<le> f x" by force
    with below have "\<forall>z \<in> set (y # ys). f z \<le> f x" by auto
    with Cons.prems(2) False show ?thesis by simp
  qed
qed

lemma jsSort_sorted_desc:
  fixes f :: "'a \<Rightarrow> real"
  assumes cmp: "\<forall>a \<in> S. \<forall>b \<in> S. isPositive (cmp a b) \<longleftrightarrow> f a < f b"
    and "set xs \<subseteq> S"
  shows "sorted_wrt (\<lambda>a b. f b \<le> f a) (jsSort cmp xs)"
  using assms(2)
proof (induction xs)
  case Nil
  show ?case by (simp add: jsSort_def)
next
  case (Cons x xs)
  then have "sorted_wrt (\<lambda>a b. f b \<le> f a) (jsSort cmp xs)" by simp
  moreover from Cons.prems have "x \<in> S" and "set (jsSort cmp xs) \<subseteq> S"
    by (simp_all add: set_jsSort)
  ultimately show ?case
    unfolding jsSort_Cons using cmp by (intro insertBy_sorted_desc [where S = S]) simp_all
qed

lemma find_first_sorted:
  "sorted_wrt R xs \<Longrightarrow> find P xs = Some m \<Longrightarrow> t \<in> set xs \<Longrightarrow> P t \<Longrightarrow> t = m \<or> R m t"
  by (induction xs) (auto split: if_splits)

text \<open>When every date string of a group parses, no transaction of the group in the latest
  month is later than the group's match.\<close>

lemma bankMatch_most_recent:
  assumes valid: "\<forall>t \<in> set l. txn_date t \<noteq> DText InvalidDate"
    and m: "bankMatch latest l = Some m"
    and t: "t \<in> set l" "truthy (txn_date t)" "inMonth latest t"
  shows "\<not> isPositive (bankCompare m t)"
proof -
  let ?S = "{t. \<exists>tm y mo. txn_date t = DText (ValidDate tm y mo)}"
  let ?f = "\<lambda>t. num (valueOf (newDateOr0 (txn_date t)))"
  let ?xs = "filter (\<lambda>txn. truthy (txn_date txn)) l"
  have cmp: "\<forall>a \<in> ?S. \<forall>b \<in> ?S. isPositive (bankCompare a b) \<longleftrightarrow> ?f a < ?f b"
    by (auto simp: bankCompare_def newDateOr0_def)
  have sub: "set ?xs \<subseteq> ?S"
  proof
    fix x assume "x \<in> set ?xs"
    then have "x \<in> set l" and "truthy (txn_date x)" by simp_all
    with valid have "txn_date x \<noteq> DText InvalidDate" by blast
    with \<open>truthy (txn_date x)\<close> show "x \<in> ?S"
      by (cases "txn_date x"; cases "newDate (txn_date x)") auto
  qed
  have sorted: "sorted_wrt (\<lambda>a b. ?f b \<le> ?f a) (jsSort bankCompare ?xs)"
    using cmp sub by (rule jsSort_sorted_desc)
  have tin: "t \<in> set (jsSort bankCompare ?xs)"
    using t by (simp add: set_jsSort)
  have "t = m \<or> ?f t \<le> ?f m"
    using sorted m [unfolded bankMatch_def] tin t(3) by (rule find_first_sorted)
  then have le: "?f t \<le> ?f m" by auto
  have "m \<in> set ?xs"
    using find_Some_props [OF m [unfolded bankMatch_def]] by (simp add: set_jsSort)
  with sub have mS: "m \<in> ?S" by blast
  from t sub have tS: "t \<in> ?S" by auto
  from cmp mS tS have "isPositive (bankCompare m t) \<longleftrightarrow> ?f m < ?f t" by blast
  with le show ?thesis by simp
qed

subsection \<open>Every group of the latest month contributes\<close>

lemma bankMatch_complete:
  assumes "t \<in> set l" and "truthy (txn_date t)" and "inMonth latest t"
  shows "\<exists>m. bankMatch latest l = Some m"
proof -
  have "t \<in> set (jsSort bankCompare (filter (\<lambda>txn. truthy (txn_date txn)) l))"
    using assms by (simp add: set_jsSort)
  with assms(3) have "find (inMonth latest)
      (jsSort bankCompare (filter (\<lambda>txn. truthy (txn_date txn)) l)) \<noteq> None"
    by (auto simp: find_None_iff)
  then show ?thesis by (simp add: bankMatch_def)
qed

lemma bankGroups_has_group:
  assumes "t \<in> set xs"
  shows "(bankKey t, filter (\<lambda>x. bankKey x = bankKey t) xs) \<in> set (bankGroups xs)"
proof -
  have e: "getOrEmpty ([] :: (string \<times> row list) list) (bankKey t) = []"
    by (simp add: getOrEmpty_def)
  have g: "getOrEmpty (bankGroups xs) (bankKey t) = filter (\<lambda>x. bankKey x = bankKey t) xs"
    by (simp add: bankGroups_def groups_get e)
  from assms have "filter (\<lambda>x. bankKey x = bankKey t) xs \<noteq> []"
    by (auto simp: filter_empty_conv)
  with g have "map_of (bankGroups xs) (bankKey t) = Some (filter (\<lambda>x. bankKey x = bankKey t) xs)"
    by (cases "map_of (bankGroups xs) (bankKey t)") (simp_all add: getOrEmpty_def)
  then show ?thesis by (rule map_of_SomeD)
qed

lemma in_map_filter: "x \<in> set xs \<Longrightarrow> f x = Some y \<Longrightarrow> y \<in> set (List.map_filter f xs)"
  by (induction xs) (auto split: option.splits)

lemma bankMatches_complete:
  assumes "t \<in> set xs" and "truthy (txn_date t)" and "inMonth latest t"
  shows "\<exists>m \<in> set (bankMatches latest xs). bankKey m = bankKey t"
proof -
  let ?l = "filter (\<lambda>x. bankKey x = bankKey t) xs"
  have g: "(bankKey t, ?l) \<in> set (bankGroups xs)"
    using assms(1) by (rule bankGroups_has_group)
  from assms have "t \<in> set ?l" by simp
  then obtain m where m: "bankMatch latest ?l = Some m"
    using assms(2,3) bankMatch_complete by blast
  have "m \<in> set ?l"
    using bankMatch_props [OF m] by (elim conjE)
  then have k: "bankKey m = bankKey t" by simp
  from g have "?l \<in> set (map snd (bankGroups xs))" by force
  then have "m \<in> set (bankMatches latest xs)"
    unfolding bankMatches_def using m by (rule in_map_filter)
  with k show ?thesis by blast
qed

lemma filter_insertBy_stable:
  fixes f :: "'a \<Rightarrow> real"
  assumes cmp: "\<forall>a \<in> S. \<forall>b \<in> S. isPositive (cmp a b) \<longleftrightarrow> f a < f b"
    and "x \<in> S" and "set xs \<subseteq> S" and Q: "\<forall>y. Q y \<longrightarrow> f y = c"
  shows "filter Q (insertBy cmp x xs) = (if Q x then x # filter Q xs else filter Q xs)"
  using assms(3)
proof (induction xs)
  case Nil
  show ?case by simp
next
  case (Cons y ys)
  then have y: "y \<in> S" and ih: "filter Q (insertBy cmp x ys) = (if Q x then x # filter Q ys else filter Q ys)"
    by simp_all
  show ?case
  proof (cases "isPositive (cmp x y)")
    case False
    then show ?thesis by simp
  next
    case True
    with cmp \<open>x \<in> S\<close> y have lt: "f x < f y" by blast
    have "\<not> (Q x \<and> Q y)"
    proof
      assume "Q x \<and> Q y"
      with Q have "f x = c" "f y = c" by simp_all
      with lt show False by simp
    qed
    with True ih show ?thesis by auto
  qed
qed

lemma filter_jsSort_stable:
  fixes f :: "'a \<Rightarrow> real"
  assumes cmp: "\<forall>a \<in> S. \<forall>b \<in> S. isPositive (cmp a b) \<longleftrightarrow> f a < f b"
    and "set xs \<subseteq> S" and Q: "\<forall>y. Q y \<longrightarrow> f y = c"
  shows "filter Q (jsSort cmp xs) = filter Q xs"
  using assms(2)
proof (induction xs)
  case Nil
  show ?case by (simp add: jsSort_def)
next
  case (Cons x xs)
  then have x: "x \<in> S" and sub: "set (jsSort cmp xs) \<subseteq> S" and ih: "filter Q (jsSort cmp xs) = filter Q xs"
    by (simp_all add: set_jsSort)
  have "filter Q (insertBy cmp x (jsSort cmp xs))
      = (if Q x then x # filter Q (jsSort cmp xs) else filter Q (jsSort cmp xs))"
    using cmp x sub Q by (rule filter_insertBy_stable)
  then show ?case by (simp add: jsSort_Cons ih)
qed

lemma find_is_hd_filter:
  assumes "find P xs = Some m" and "R m"
  shows "hd (filter (\<lambda>y. P y \<and> R y) xs) = m"
  using assms by (induction xs) (auto split: if_splits)

lemma bankMatch_first_of_equals:
  assumes valid: "\<forall>t \<in> set l. txn_date t \<noteq> DText InvalidDate"
    and m: "bankMatch latest l = Some m"
  shows "m = hd (filter (\<lambda>t. truthy (txn_date t) \<and> inMonth latest t \<and> txnTime t = txnTime m) l)"
proof -
  let ?S = "{t. \<exists>tm y mo. txn_date t = DText (ValidDate tm y mo)}"
  let ?xs = "filter (\<lambda>txn. truthy (txn_date txn)) l"
  let ?Q = "\<lambda>y. inMonth latest y \<and> txnTime y = txnTime m"
  have cmp: "\<forall>a \<in> ?S. \<forall>b \<in> ?S. isPositive (bankCompare a b) \<longleftrightarrow> txnTime a < txnTime b"
    by (auto simp: bankCompare_def newDateOr0_def txnTime_def)
  have sub: "set ?xs \<subseteq> ?S"
  proof
    fix x assume "x \<in> set ?xs"
    then have "x \<in> set l" and "truthy (txn_date x)" by simp_all
    with valid have "txn_date x \<noteq> DText InvalidDate" by blast
    with \<open>truthy (txn_date x)\<close> show "x \<in> ?S"
      by (cases "txn_date x"; cases "newDate (txn_date x)") auto
  qed
  have Q: "\<forall>y. ?Q y \<longrightarrow> txnTime y = txnTime m" by simp
  have st: "filter ?Q (jsSort bankCompare ?xs) = filter ?Q ?xs"
    using cmp sub Q by (rule filter_jsSort_stable)
  have "hd (filter ?Q (jsSort bankCompare ?xs)) = m"
    using m [unfolded bankMatch_def] by (rule find_is_hd_filter) simp
  then have "hd (filter ?Q ?xs) = m" by (simp only: st)
  moreover have "filter ?Q ?xs
      = filter (\<lambda>t. truthy (txn_date t) \<and> inMonth latest t \<and> txnTime t = txnTime m) l"
    by (simp add: conj_commute conj_left_commute cong: conj_cong)
  ultimately show ?thesis by simp
qed

subsection \<open>The latest month\<close>

lemma latestStep_foldl:
  assumes "foldl latestStep a xs = Some L"
  shows "(a = Some L \<or> (\<exists>t \<in> set xs. truthy (txn_date t) \<and> inMonth L t)) \<and>
         (\<forall>x. a = Some x \<longrightarrow> x \<le> L) \<and>
         (\<forall>t \<in> set xs. \<forall>mn. truthy (txn_date t) \<and> monthNumeric (newDate (txn_date t)) = Some mn
            \<longrightarrow> mn \<le> L)"
  using assms
proof (induction xs arbitrary: a)
  case Nil
  then show ?case by simp
next
  case (Cons t ts)
  from Cons.prems have f: "foldl latestStep (latestStep a t) ts = Some L" by simp
  note ih = Cons.IH [OF f]
  show ?case
  proof (cases "truthy (txn_date t)")
    case False
    then have "latestStep a t = a" by (simp add: latestStep_def)
    with ih False show ?thesis by auto
  next
    case True
    show ?thesis
    proof (cases "monthNumeric (newDate (txn_date t))")
      case None
      with True have "latestStep a t = a" by (simp add: latestStep_def)
      with ih None show ?thesis by auto
    next
      case (Some mn)
      show ?thesis
      proof (cases a)
        case None
        with True Some have "latestStep a t = Some mn" by (simp add: latestStep_def)
        with ih True Some None show ?thesis by (auto simp: inMonth_def)
      next
        case (Some l)
        show ?thesis
        proof (cases "mn > l")
          case gt: True
          with True \<open>monthNumeric (newDate (txn_date t)) = Some mn\<close> Some
          have "latestStep a t = Some mn" by (simp add: latestStep_def)
          with ih True \<open>monthNumeric (newDate (txn_date t)) = Some mn\<close> Some gt
          show ?thesis by (auto simp: inMonth_def)
        next
          case le: False
          with True \<open>monthNumeric (newDate (txn_date t)) = Some mn\<close> Some
          have "latestStep a t = a" by (simp add: latestStep_def)
          with ih True \<open>monthNumeric (newDate (txn_date t)) = Some mn\<close> Some le
          show ?thesis by auto
        qed
      qed
    qed
  qed
qed

text \<open>Without a dated savings or demat transaction, or with a negative month number, the
  result is all zero.\<close>

lemma calculateBankHoldings_no_month:
  assumes "latestMonthNumeric (filter isBankType txns) = None \<or>
           (\<exists>l. latestMonthNumeric (filter isBankType txns) = Some l \<and> l < 0)"
  shows "calculateBankHoldings txns = bankZero"
  using assms by (auto simp: calculateBankHoldings_def Let_def)

lemma calculateBankHoldings_matches:
  assumes "latestMonthNumeric (filter isBankType txns) = Some latest" and "0 \<le> latest"
  shows "calculateBankHoldings txns =
     \<lparr> savings = amountOfType ''savings'' (bankMatches latest (filter isBankType txns)),
       demat = amountOfType ''demat'' (bankMatches latest (filter isBankType txns)),
       bankTotal = amountOfType ''savings'' (bankMatches latest (filter isBankType txns))
                 + amountOfType ''demat'' (bankMatches latest (filter isBankType txns)) \<rparr>"
proof -
  have "filter isBankType txns \<noteq> []"
    using assms(1) by (auto simp: latestMonthNumeric_def)
  moreover from this have "txns \<noteq> []" by auto
  ultimately show ?thesis
    using assms by (simp add: calculateBankHoldings_def foldl_bankAdd bankMatches_def Let_def)
qed

text \<open>
  C2, amended. When the savings and demat transactions have a latest month (and its number
  is not negative), that month is the month of one of them and the greatest month number
  of a dated transaction among them, and the result is made of the matches of the groups.
  There is at most one match per (account, bank, type) key, and exactly one for every key
  that has a dated savings or demat transaction in the latest month: the first
  transaction of that month in the group's descending date order. Savings and demat are
  the sums of the matches' amounts by type and the total is their sum, so a group
  contributes one amount, not the sum of its transactions of that month, and no
  transaction of an earlier month contributes. When every date string parses, no
  transaction of a match's group that falls in the latest month is later than the match,
  and among those dated at the same time as the match it is the first in the list.
\<close>

theorem bank_latest_month_snapshot:
  assumes latest: "latestMonthNumeric (filter isBankType txns) = Some latest"
    and nonneg: "0 \<le> latest"
  shows "(\<exists>t \<in> set txns. isBankType t \<and> truthy (txn_date t) \<and> inMonth latest t) \<and>
         (\<forall>t \<in> set (filter isBankType txns). \<forall>mn.
            truthy (txn_date t) \<and> monthNumeric (newDate (txn_date t)) = Some mn \<longrightarrow> mn \<le> latest) \<and>
         savings (calculateBankHoldings txns)
           = amountOfType ''savings'' (bankMatches latest (filter isBankType txns)) \<and>
         demat (calculateBankHoldings txns)
           = amountOfType ''demat'' (bankMatches latest (filter isBankType txns)) \<and>
         bankTotal (calculateBankHoldings txns)
           = amountOfType ''savings'' (bankMatches latest (filter isBankType txns))
             + amountOfType ''demat'' (bankMatches latest (filter isBankType txns)) \<and>
         distinct (map bankKey (bankMatches latest (filter isBankType txns))) \<and>
         (\<forall>m \<in> set (bankMatches latest (filter isBankType txns)).
            m \<in> set txns \<and> isBankType m \<and> truthy (txn_date m) \<and> inMonth latest m) \<and>
         (\<forall>m \<in> set (bankMatches latest (filter isBankType txns)).
            find (inMonth latest)
              (jsSort bankCompare
                (filter (\<lambda>t. truthy (txn_date t))
                  (filter (\<lambda>t. bankKey t = bankKey m) (filter isBankType txns))))
            = Some m) \<and>
         (\<forall>t \<in> set txns. isBankType t \<and> truthy (txn_date t) \<and> inMonth latest t \<longrightarrow>
            (\<exists>m \<in> set (bankMatches latest (filter isBankType txns)). bankKey m = bankKey t)) \<and>
         ((\<forall>t \<in> set txns. txn_date t \<noteq> DText InvalidDate) \<longrightarrow>
          (\<forall>m \<in> set (bankMatches latest (filter isBankType txns)). \<forall>t \<in> set txns.
             isBankType t \<and> bankKey t = bankKey m \<and> truthy (txn_date t) \<and> inMonth latest t
             \<longrightarrow> \<not> isPositive (bankCompare m t))) \<and>
         ((\<forall>t \<in> set txns. txn_date t \<noteq> DText InvalidDate) \<longrightarrow>
          (\<forall>m \<in> set (bankMatches latest (filter isBankType txns)).
             m = hd (filter (\<lambda>t. truthy (txn_date t) \<and> inMonth latest t \<and> txnTime t = txnTime m)
                      (filter (\<lambda>t. bankKey t = bankKey m) (filter isBankType txns)))))"
proof (intro conjI)
  let ?fs = "filter isBankType txns"
  have "\<exists>t \<in> set ?fs. truthy (txn_date t) \<and> inMonth latest t"
    using latestStep_foldl [OF latest [unfolded latestMonthNumeric_def]] by blast
  then show "\<exists>t \<in> set txns. isBankType t \<and> truthy (txn_date t) \<and> inMonth latest t"
    by auto
  show "\<forall>t \<in> set ?fs. \<forall>mn.
      truthy (txn_date t) \<and> monthNumeric (newDate (txn_date t)) = Some mn \<longrightarrow> mn \<le> latest"
    using latestStep_foldl [OF latest [unfolded latestMonthNumeric_def]] by blast
  show "savings (calculateBankHoldings txns) = amountOfType ''savings'' (bankMatches latest ?fs)"
    by (simp add: calculateBankHoldings_matches [OF latest nonneg])
  show "demat (calculateBankHoldings txns) = amountOfType ''demat'' (bankMatches latest ?fs)"
    by (simp add: calculateBankHoldings_matches [OF latest nonneg])
  show "bankTotal (calculateBankHoldings txns)
      = amountOfType ''savings'' (bankMatches latest ?fs)
        + amountOfType ''demat'' (bankMatches latest ?fs)"
    by (simp add: calculateBankHoldings_matches [OF latest nonneg])
  show "distinct (map bankKey (bankMatches latest ?fs))"
    by (rule bankMatches_distinct)
  show "\<forall>m \<in> set (bankMatches latest ?fs).
      m \<in> set txns \<and> isBankType m \<and> truthy (txn_date m) \<and> inMonth latest m"
  proof
    fix m
    assume "m \<in> set (bankMatches latest ?fs)"
    then have "m \<in> set ?fs" and "truthy (txn_date m)" and "inMonth latest m"
      using bankMatches_props [of m latest ?fs] by simp_all
    then show "m \<in> set txns \<and> isBankType m \<and> truthy (txn_date m) \<and> inMonth latest m"
      by simp
  qed
  show "\<forall>m \<in> set (bankMatches latest ?fs).
      find (inMonth latest)
        (jsSort bankCompare
          (filter (\<lambda>t. truthy (txn_date t)) (filter (\<lambda>t. bankKey t = bankKey m) ?fs)))
      = Some m"
  proof
    fix m
    assume m: "m \<in> set (bankMatches latest ?fs)"
    have "bankMatch latest (filter (\<lambda>t. bankKey t = bankKey m) ?fs) = Some m"
      using bankMatches_props [OF m] by (elim conjE)
    then show "find (inMonth latest)
        (jsSort bankCompare
          (filter (\<lambda>t. truthy (txn_date t)) (filter (\<lambda>t. bankKey t = bankKey m) ?fs)))
      = Some m"
      unfolding bankMatch_def .
  qed
  show "\<forall>t \<in> set txns. isBankType t \<and> truthy (txn_date t) \<and> inMonth latest t \<longrightarrow>
      (\<exists>m \<in> set (bankMatches latest ?fs). bankKey m = bankKey t)"
  proof (intro ballI impI)
    fix t
    assume t: "t \<in> set txns"
      and c: "isBankType t \<and> truthy (txn_date t) \<and> inMonth latest t"
    from t c have "t \<in> set ?fs" by simp
    moreover from c have "truthy (txn_date t)" and "inMonth latest t" by simp_all
    ultimately show "\<exists>m \<in> set (bankMatches latest ?fs). bankKey m = bankKey t"
      by (rule bankMatches_complete)
  qed
  show "(\<forall>t \<in> set txns. txn_date t \<noteq> DText InvalidDate) \<longrightarrow>
      (\<forall>m \<in> set (bankMatches latest ?fs). \<forall>t \<in> set txns.
         isBankType t \<and> bankKey t = bankKey m \<and> truthy (txn_date t) \<and> inMonth latest t
         \<longrightarrow> \<not> isPositive (bankCompare m t))"
  proof (intro impI ballI)
    fix m t
    assume valid: "\<forall>t \<in> set txns. txn_date t \<noteq> DText InvalidDate"
      and m: "m \<in> set (bankMatches latest ?fs)" and t: "t \<in> set txns"
      and c: "isBankType t \<and> bankKey t = bankKey m \<and> truthy (txn_date t) \<and> inMonth latest t"
    let ?l = "filter (\<lambda>t. bankKey t = bankKey m) ?fs"
    have "bankMatch latest ?l = Some m"
      using bankMatches_props [OF m] by (elim conjE)
    moreover have "\<forall>t \<in> set ?l. txn_date t \<noteq> DText InvalidDate"
      using valid by simp
    moreover have "t \<in> set ?l"
      using t c by simp
    ultimately show "\<not> isPositive (bankCompare m t)"
      using c by (intro bankMatch_most_recent [where l = ?l and latest = latest]) simp_all
  qed
  show "(\<forall>t \<in> set txns. txn_date t \<noteq> DText InvalidDate) \<longrightarrow>
      (\<forall>m \<in> set (bankMatches latest ?fs).
         m = hd (filter (\<lambda>t. truthy (txn_date t) \<and> inMonth latest t \<and> txnTime t = txnTime m)
                  (filter (\<lambda>t. bankKey t = bankKey m) ?fs)))"
  proof (intro impI ballI)
    fix m
    assume valid: "\<forall>t \<in> set txns. txn_date t \<noteq> DText InvalidDate"
      and m: "m \<in> set (bankMatches latest ?fs)"
    let ?l = "filter (\<lambda>t. bankKey t = bankKey m) ?fs"
    have "\<forall>t \<in> set ?l. txn_date t \<noteq> DText InvalidDate"
      using valid by simp
    moreover have "bankMatch latest ?l = Some m"
      using bankMatches_props [OF m] by (elim conjE)
    ultimately show "m = hd (filter
        (\<lambda>t. truthy (txn_date t) \<and> inMonth latest t \<and> txnTime t = txnTime m) ?l)"
      by (rule bankMatch_first_of_equals)
  qed
qed

theorem bank_latest_month_snapshot_witness:
  "latestMonthNumeric (filter isBankType
     [bankRow ''A'' ''Savings'' 100 2024 0 1000, bankRow ''A'' ''Savings'' 300 2024 2 500,
      bankRow ''A'' ''Savings'' 310 2024 2 700, bankRow ''B'' ''Demat'' 305 2024 2 300])
     = Some 202403 \<and>
   bankMatches 202403 (filter isBankType
     [bankRow ''A'' ''Savings'' 100 2024 0 1000, bankRow ''A'' ''Savings'' 300 2024 2 500,
      bankRow ''A'' ''Savings'' 310 2024 2 700, bankRow ''B'' ''Demat'' 305 2024 2 300])
     = [bankRow ''A'' ''Savings'' 310 2024 2 700, bankRow ''B'' ''Demat'' 305 2024 2 300] \<and>
   savings (calculateBankHoldings
     [bankRow ''A'' ''Savings'' 100 2024 0 1000, bankRow ''A'' ''Savings'' 300 2024 2 500,
      bankRow ''A'' ''Savings'' 310 2024 2 700, bankRow ''B'' ''Demat'' 305 2024 2 300]) = 700 \<and>
   demat (calculateBankHoldings
     [bankRow ''A'' ''Savings'' 100 2024 0 1000, bankRow ''A'' ''Savings'' 300 2024 2 500,
      bankRow ''A'' ''Savings'' 310 2024 2 700, bankRow ''B'' ''Demat'' 305 2024 2 300]) = 300 \<and>
   bankTotal (calculateBankHoldings
     [bankRow ''A'' ''Savings'' 100 2024 0 1000, bankRow ''A'' ''Savings'' 300 2024 2 500,
      bankRow ''A'' ''Savings'' 310 2024 2 700, bankRow ''B'' ''Demat'' 305 2024 2 300]) = 1000 \<and>
   \<not> isPositive (bankCompare (bankRow ''A'' ''Savings'' 310 2024 2 700)
                              (bankRow ''A'' ''Savings'' 300 2024 2 500))"
proof -
  let ?ex = "[bankRow ''A'' ''Savings'' 100 2024 0 1000, bankRow ''A'' ''Savings'' 300 2024 2 500,
      bankRow ''A'' ''Savings'' 310 2024 2 700, bankRow ''B'' ''Demat'' 305 2024 2 300]"
  let ?ms = "[bankRow ''A'' ''Savings'' 310 2024 2 700, bankRow ''B'' ''Demat'' 305 2024 2 300]"
  have latest: "latestMonthNumeric (filter isBankType ?ex) = Some 202403"
    by (simp add: bank_defs string_defs)
  have nonneg: "(0::int) \<le> 202403"
    by simp
  have ms: "bankMatches 202403 (filter isBankType ?ex) = ?ms"
    by (simp add: bank_defs string_defs)
  have valid: "\<forall>t \<in> set ?ex. txn_date t \<noteq> DText InvalidDate"
    by (simp add: bankRow_def emptyRow_def)
  have t: "bankRow ''A'' ''Savings'' 300 2024 2 500 \<in> set ?ex"
    by simp
  have c: "isBankType (bankRow ''A'' ''Savings'' 300 2024 2 500) \<and>
      bankKey (bankRow ''A'' ''Savings'' 300 2024 2 500)
        = bankKey (bankRow ''A'' ''Savings'' 310 2024 2 700) \<and>
      truthy (txn_date (bankRow ''A'' ''Savings'' 300 2024 2 500)) \<and>
      inMonth 202403 (bankRow ''A'' ''Savings'' 300 2024 2 500)"
    by (simp add: bank_defs string_defs)
  have sv: "amountOfType ''savings'' ?ms = 700"
    by (simp add: bank_defs string_defs)
  have dv: "amountOfType ''demat'' ?ms = 300"
    by (simp add: bank_defs string_defs)
  note snap = bank_latest_month_snapshot [OF latest nonneg, unfolded ms sv dv]
  have s: "savings (calculateBankHoldings ?ex) = 700"
    using snap by (elim conjE)
  have d: "demat (calculateBankHoldings ?ex) = 300"
    using snap by (elim conjE)
  have "bankTotal (calculateBankHoldings ?ex) = 700 + 300"
    using snap by (elim conjE)
  then have tot: "bankTotal (calculateBankHoldings ?ex) = 1000"
    by simp
  have "(\<forall>t \<in> set ?ex. txn_date t \<noteq> DText InvalidDate) \<longrightarrow>
      (\<forall>m \<in> set ?ms. \<forall>t \<in> set ?ex.
      isBankType t \<and> bankKey t = bankKey m \<and> truthy (txn_date t) \<and> inMonth 202403 t
      \<longrightarrow> \<not> isPositive (bankCompare m t))"
    using snap by (elim conjE)
  then have "\<forall>m \<in> set ?ms. \<forall>t \<in> set ?ex.
      isBankType t \<and> bankKey t = bankKey m \<and> truthy (txn_date t) \<and> inMonth 202403 t
      \<longrightarrow> \<not> isPositive (bankCompare m t)"
    using valid by (rule mp)
  then have "\<forall>t \<in> set ?ex.
      isBankType t \<and> bankKey t = bankKey (bankRow ''A'' ''Savings'' 310 2024 2 700) \<and>
      truthy (txn_date t) \<and> inMonth 202403 t
      \<longrightarrow> \<not> isPositive (bankCompare (bankRow ''A'' ''Savings'' 310 2024 2 700) t)"
    by (rule bspec) simp
  then have "isBankType (bankRow ''A'' ''Savings'' 300 2024 2 500) \<and>
      bankKey (bankRow ''A'' ''Savings'' 300 2024 2 500)
        = bankKey (bankRow ''A'' ''Savings'' 310 2024 2 700) \<and>
      truthy (txn_date (bankRow ''A'' ''Savings'' 300 2024 2 500)) \<and>
      inMonth 202403 (bankRow ''A'' ''Savings'' 300 2024 2 500)
      \<longrightarrow> \<not> isPositive (bankCompare (bankRow ''A'' ''Savings'' 310 2024 2 700)
                                   (bankRow ''A'' ''Savings'' 300 2024 2 500))"
    using t by (rule bspec)
  then have r: "\<not> isPositive (bankCompare (bankRow ''A'' ''Savings'' 310 2024 2 700)
                              (bankRow ''A'' ''Savings'' 300 2024 2 500))"
    using c by (rule mp)
  from latest ms s d tot r show ?thesis by (intro conjI)
qed
subsection \<open>The rate solver\<close>

lemma bisect_constant_negative:
  assumes "\<And>r. f r = c" and "c \<le> - (1 / 10 ^ 6)"
  shows "bisect (Suc n) f low high mid = 100 * (low + (high - low) / 2 ^ Suc n)"
proof (induction n arbitrary: high mid)
  case 0
  from assms show ?case
    by (simp add: Let_def field_simps)
next
  case (Suc n)
  from assms have "bisect (Suc (Suc n)) f low high mid
      = bisect (Suc n) f low ((low + high) / 2) ((low + high) / 2)"
    by (simp add: Let_def)
  also have "\<dots> = 100 * (low + ((low + high) / 2 - low) / 2 ^ Suc n)"
    by (rule Suc.IH)
  also have "\<dots> = 100 * (low + (high - low) / 2 ^ Suc (Suc n))"
    by (simp add: field_simps)
  finally show ?case .
qed

lemma npv_single: "npv [cf] rate = num (cfAmount cf)"
  by (simp add: npv_def mathPow_def)

lemma jsSort_single: "jsSort cmp [x] = [x]"
  by (simp add: jsSort_def)

text \<open>What the two guards do cover: fewer than two entries, or no valid entry.\<close>

lemma xirr_guards:
  "length flows < 2 \<or> filter cfValid flows = [] \<Longrightarrow> calculateXirr flows = 0"
  by (auto simp: calculateXirr_def jsSort_def)

text \<open>
  C1. The list is rejected only when it has fewer than two entries or when no entry is valid.
  With two entries of which one has amount 0, a single cashflow survives the filter, the
  net present value is the constant -100000, and the bisection walks down to the lower end
  of its interval: the result is about -99.99, not 0.
\<close>

theorem xirr_single_flow:
  "calculateXirr
     [\<lparr> cfAmount = Fin (- 100000), cfDate = ValidDate 0 2024 0 \<rparr>,
      \<lparr> cfAmount = Fin 0, cfDate = ValidDate 86400000 2024 0 \<rparr>]
   = 100 * (- 0.9999 + 100.9999 / 2 ^ 100) \<and>
   calculateXirr
     [\<lparr> cfAmount = Fin (- 100000), cfDate = ValidDate 0 2024 0 \<rparr>,
      \<lparr> cfAmount = Fin 0, cfDate = ValidDate 86400000 2024 0 \<rparr>] < - 99"
proof -
  let ?cf = "\<lparr> cfAmount = Fin (- 100000), cfDate = ValidDate 0 2024 0 \<rparr>"
  let ?flows = "[?cf, \<lparr> cfAmount = Fin 0, cfDate = ValidDate 86400000 2024 0 \<rparr>]"
  have "calculateXirr ?flows = bisect (Suc 99) (npv [?cf]) (- 0.9999) 100 0"
    by (simp add: calculateXirr_def cfValid_def jsSort_single)
  also have "\<dots> = 100 * (- 0.9999 + (100 - (- 0.9999)) / 2 ^ Suc 99)"
    by (rule bisect_constant_negative [where c = "- 100000"]) (simp_all add: npv_single)
  finally have v: "calculateXirr ?flows = 100 * (- 0.9999 + 100.9999 / 2 ^ 100)"
    by simp
  moreover have "100 * (- 0.9999 + 100.9999 / 2 ^ 100) < (- 99 :: real)"
    by simp
  ultimately show ?thesis by simp
qed

lemma npv_two:
  "npv [a, b] rate = num (cfAmount a)
     + num (cfAmount b) / mathPow (1 + rate) ((cfTime b - cfTime a) / MS_PER_YEAR)"
  by (simp add: npv_def mathPow_def)

lemma gain_root_small:
  fixes m :: real
  assumes "- 1 < m" and "m \<le> 100" and "\<bar>- 100000 + 110000 / (1 + m)\<bar> < 1 / 10 ^ 6"
  shows "\<bar>m - 1 / 10\<bar> \<le> 2 / 10 ^ 9"
proof -
  define v where "v = - 100000 + 110000 / (1 + m)"
  define d where "d = 1 / 10 - m"
  from assms(1) have pos: "0 < 1 + m" by simp
  then have e: "v * (1 + m) = 100000 * d"
    unfolding v_def d_def by (simp add: field_simps)
  have small: "\<bar>v\<bar> < 1 / 1000000"
    using assms(3) unfolding v_def by simp
  have "\<bar>v * (1 + m)\<bar> = \<bar>v\<bar> * (1 + m)"
    using pos by (simp add: abs_mult)
  then have "\<bar>100000 * d\<bar> = \<bar>v\<bar> * (1 + m)"
    by (simp only: e)
  also have "\<dots> \<le> \<bar>v\<bar> * 101"
    using assms(2) by (intro mult_left_mono) simp_all
  finally have "\<bar>100000 * d\<bar> \<le> \<bar>v\<bar> * 101" .
  moreover have "\<bar>100000 * d\<bar> = 100000 * \<bar>d\<bar>"
    by (simp add: abs_mult)
  ultimately have "\<bar>d\<bar> \<le> 2 / 1000000000"
    using small by linarith
  then show ?thesis
    unfolding d_def by (simp add: abs_minus_commute)
qed

lemma gain_negative_iff:
  fixes m :: real
  assumes "- 1 < m"
  shows "- 100000 + 110000 / (1 + m) < 0 \<longleftrightarrow> 1 / 10 < m"
proof -
  from assms have pos: "0 < 1 + m" by simp
  then show ?thesis by (simp add: field_simps)
qed

lemma gain_positive_iff:
  fixes m :: real
  assumes "- 1 < m"
  shows "0 < - 100000 + 110000 / (1 + m) \<longleftrightarrow> m < 1 / 10"
proof -
  from assms have pos: "0 < 1 + m" by simp
  then show ?thesis by (simp add: field_simps)
qed

lemma bisect_bracket:
  assumes f: "\<And>r. - 1 < r \<Longrightarrow> f r = - 100000 + 110000 / (1 + r)"
  shows "- 1 < low \<Longrightarrow> low < 1 / 10 \<Longrightarrow> 1 / 10 < high \<Longrightarrow> high \<le> 100 \<Longrightarrow>
         \<bar>mid - 1 / 10\<bar> \<le> high - low \<Longrightarrow>
         \<bar>bisect n f low high mid - 10\<bar> \<le> 100 * max (2 / 10 ^ 9) ((high - low) / 2 ^ n)"
proof (induction n arbitrary: low high mid)
  case 0
  have "\<bar>mid * 100 - 10\<bar> = 100 * \<bar>mid - 1 / 10\<bar>"
    by (simp add: abs_if)
  with 0 show ?case by (simp add: max_def)
next
  case (Suc n)
  let ?m = "(low + high) / 2"
  from Suc.prems have m: "- 1 < ?m" "?m \<le> 100" by simp_all
  then have fm: "f ?m = - 100000 + 110000 / (1 + ?m)" by (simp add: f)
  show ?case
  proof (cases "\<bar>f ?m\<bar> < 1 / 10 ^ 6")
    case True
    with fm m have "\<bar>?m - 1 / 10\<bar> \<le> 2 / 10 ^ 9"
      by (intro gain_root_small) simp_all
    then have "\<bar>?m * 100 - 10\<bar> \<le> 100 * (2 / 10 ^ 9)"
      by (simp add: abs_if split: if_splits)
    also have "\<dots> \<le> 100 * max (2 / 10 ^ 9) ((high - low) / 2 ^ Suc n)"
      by simp
    finally show ?thesis using True by (simp add: Let_def)
  next
    case notsmall: False
    have half: "(high - ?m) / 2 ^ n = (high - low) / 2 ^ Suc n"
      "(?m - low) / 2 ^ n = (high - low) / 2 ^ Suc n"
      by (simp_all add: field_simps)
    show ?thesis
    proof (cases "0 < f ?m")
      case True
      then have "0 < - 100000 + 110000 / (1 + ?m)" unfolding fm .
      then have lt: "?m < 1 / 10" by (rule iffD1 [OF gain_positive_iff [OF m(1)]])
      have a: "\<bar>?m - 1 / 10\<bar> \<le> high - ?m"
        using lt Suc.prems(3) by linarith
      have "\<bar>bisect n f ?m high ?m - 10\<bar> \<le> 100 * max (2 / 10 ^ 9) ((high - ?m) / 2 ^ n)"
        by (rule Suc.IH [OF m(1) lt Suc.prems(3) Suc.prems(4) a])
      with notsmall True show ?thesis
        by (simp only: bisect.simps Let_def if_False if_True half)
    next
      case False
      with notsmall have neg: "f ?m < 0" by simp
      then have "- 100000 + 110000 / (1 + ?m) < 0" unfolding fm .
      then have gt: "1 / 10 < ?m" by (rule iffD1 [OF gain_negative_iff [OF m(1)]])
      have a: "\<bar>?m - 1 / 10\<bar> \<le> ?m - low"
        using gt Suc.prems(2) by linarith
      have "\<bar>bisect n f low ?m ?m - 10\<bar> \<le> 100 * max (2 / 10 ^ 9) ((?m - low) / 2 ^ n)"
        by (rule Suc.IH [OF Suc.prems(1) Suc.prems(2) gt m(2) a])
      with notsmall False show ?thesis
        by (simp only: bisect.simps Let_def if_False half)
    qed
  qed
qed


text \<open>
  C6. For an outflow of 100000 and an inflow of 110000 exactly 365 days later, the solver
  returns a percentage within 0.1 of 10.
\<close>

theorem xirr_ten_percent:
  "\<bar>calculateXirr
      [\<lparr> cfAmount = Fin (- 100000), cfDate = ValidDate t y m \<rparr>,
       \<lparr> cfAmount = Fin 110000, cfDate = ValidDate (t + 365 * 86400000) y' m' \<rparr>] - 10\<bar>
   < 1 / 10"
proof -
  let ?a = "\<lparr> cfAmount = Fin (- 100000), cfDate = ValidDate t y m \<rparr>"
  let ?b = "\<lparr> cfAmount = Fin 110000, cfDate = ValidDate (t + 365 * 86400000) y' m' \<rparr>"
  have srt: "jsSort cfCompare (filter cfValid [?a, ?b]) = [?a, ?b]"
    by (simp add: cfValid_def jsSort_def cfCompare_def)
  have f: "npv [?a, ?b] r = - 100000 + 110000 / (1 + r)" if "- 1 < r" for r
    using that by (simp add: npv_two mathPow_def cfTime_def MS_PER_YEAR_def)
  have "calculateXirr [?a, ?b] = bisect 100 (npv [?a, ?b]) (- 0.9999) 100 0"
    by (simp only: calculateXirr_def srt Let_def) simp
  moreover have "\<bar>bisect 100 (npv [?a, ?b]) (- 0.9999) 100 0 - 10\<bar>
      \<le> 100 * max (2 / 10 ^ 9) ((100 - (- 0.9999)) / 2 ^ 100)"
    by (rule bisect_bracket [of "npv [?a, ?b]", OF f]) simp_all
  moreover have "100 * max (2 / 10 ^ 9) ((100 - (- 0.9999)) / 2 ^ 100) < (1 / 10 :: real)"
    by simp
  ultimately show ?thesis by simp
qed

end
